(* ===== verification/Prelude.thy ===== *)
theory Prelude
  imports Main "HOL-Library.Word" "HOL-Library.List_Lexorder"
begin

text \<open>
  Shared vocabulary of the development. Python's \<open>bytes\<close> are lists of 8-bit words;
  Python's \<open>str\<close> is a sequence of Unicode code points, modelled as a list of
  natural numbers (\<open>ustr\<close>), so that \<open>len\<close> of a \<open>str\<close> counts code points, as
  Python does, and the UTF-8 encoding of a \<open>str\<close> is a separate function
  (theory \<open>Utf8\<close>). ASCII literals of the source are written \<open>ascii ''...''\<close>; the
  source's Cyrillic literals are written as explicit code point lists.
\<close>

named_theorems model_simps "helper equations the component proofs unfold"

type_synonym byte = "8 word"
type_synonym bytes = "byte list"
type_synonym cp = nat
type_synonym ustr = "cp list"

definition ascii :: "string \<Rightarrow> ustr" where
  "ascii s = map of_char s"

abbreviation crlf :: ustr where
  "crlf \<equiv> [13, 10]"

text \<open>Python's \<open>split(sep)\<close> on \<open>str\<close> and \<open>bytes\<close> with a one-element separator:
  never empty, one more piece than separators.\<close>

fun split_on :: "'a \<Rightarrow> 'a list \<Rightarrow> 'a list list" where
  "split_on d [] = [[]]"
| "split_on d (x # xs) =
     (if x = d then [] # split_on d xs
      else (case split_on d xs of [] \<Rightarrow> [[x]] | y # ys \<Rightarrow> (x # y) # ys))"

text \<open>The Python exceptions the modelled code raises or catches.\<close>

datatype exc =
    UnicodeDecodeError | UnicodeEncodeError | ValueError
  | FileNotFoundError | NotADirectoryError | IsADirectoryError
  | UnboundLocalError | ConnectionError

subsection \<open>Generic list lemmas shared by the components\<close>

lemma ascii_append [simp, model_simps]: "ascii (s @ t) = ascii s @ ascii t"
  by (simp add: ascii_def)

lemma length_ascii [simp]: "length (ascii s) = length s"
  by (simp add: ascii_def)

lemma ascii_Nil [simp]: "ascii [] = []"
  by (simp add: ascii_def)

lemma ascii_below_256: "c \<in> set (ascii s) \<Longrightarrow> c < 256"
  by (auto simp: ascii_def)

lemma drop_length_append [simp]: "drop (length xs) (xs @ ys) = ys"
  by simp

lemma length_tl_append_one: "xs \<noteq> [] \<Longrightarrow> length (tl xs @ [x]) = length xs"
  by (cases xs) auto

lemma drop_Suc_tl: "drop (Suc n) xs = drop n (tl xs)"
  by (simp add: drop_Suc)

lemma unat_byte_lt [simp]: "unat (b :: byte) < 256"
  by (rule unsigned_less [of b, simplified])

lemma filter_sort: "filter P (sort xs) = sort (filter P xs)"
  by (induction xs) (simp_all add: filter_insort filter_insort_triv)

lemma split_on_ne [simp]: "split_on d s \<noteq> []"
  by (induction s) (auto split: list.splits)

lemma split_on_parts:
  "split_on d s = b0 # items \<Longrightarrow>
     s = b0 @ concat (map ((#) d) items) \<and> d \<notin> set b0 \<and> (\<forall>i \<in> set items. d \<notin> set i)"
proof (induction s arbitrary: b0 items)
  case Nil
  then show ?case by simp
next
  case (Cons x xs)
  show ?case
  proof (cases "x = d")
    case True
    with Cons.prems obtain b1 is1 where "split_on d xs = b1 # is1" "b0 = []" "items = b1 # is1"
      using split_on_ne [of d xs] by (cases "split_on d xs") auto
    with Cons.IH True show ?thesis by auto
  next
    case False
    with Cons.prems obtain y ys where y: "split_on d xs = y # ys" "b0 = x # y" "items = ys"
      using split_on_ne [of d xs] by (cases "split_on d xs") auto
    with Cons.IH [OF y(1)] False show ?thesis by auto
  qed
qed

lemma split_on_prefix:
  "d \<notin> set n \<Longrightarrow> split_on d (n @ r) = (case split_on d r of [] \<Rightarrow> [n] | y # ys \<Rightarrow> (n @ y) # ys)"
  by (induction n) (auto split: list.splits)

lemma split_on_free: "d \<notin> set n \<Longrightarrow> split_on d n = [n]"
  using split_on_prefix [of d n "[]"] by simp

end
