(* ===== verification/History.thy ===== *)
theory History
  imports Prelude
begin

text \<open>
  The request history of \<open>HTTPServer\<close> (src/server.py): the list
  \<open>self.request_history\<close> of dictionaries \<open>{'request', 'response'}\<close> and its only
  mutator \<open>add_to_request_history\<close>, which pops the oldest entry when the list already
  holds 50 and then appends. The history is modelled as a list of \<open>entry\<close> records,
  oldest first, as the Python list is. Its contract is a bounded FIFO: the list is
  always the last 50 entries ever recorded (\<open>last_n\<close>), proved as a refinement
  of the list abstraction.
\<close>

record entry =
  request :: ustr
  response :: ustr

definition history_cap :: nat where
  "history_cap = 50"

definition add_to_request_history :: "entry list \<Rightarrow> ustr \<Rightarrow> ustr \<Rightarrow> entry list" where
  "add_to_request_history h req resp =
     (let h1 = (if history_cap \<le> length h then tl h else h)
      in h1 @ [\<lparr>request = req, response = resp\<rparr>])"

text \<open>Several records in a row, in the order the handlers call the method.\<close>

fun record_all :: "entry list \<Rightarrow> (ustr \<times> ustr) list \<Rightarrow> entry list" where
  "record_all h [] = h"
| "record_all h ((q, r) # xs) = record_all (add_to_request_history h q r) xs"

definition mk_entry :: "ustr \<times> ustr \<Rightarrow> entry" where
  "mk_entry qr = \<lparr>request = fst qr, response = snd qr\<rparr>"

text \<open>The abstraction: the last \<open>n\<close> elements of everything recorded.\<close>

definition last_n :: "nat \<Rightarrow> 'a list \<Rightarrow> 'a list" where
  "last_n n xs = drop (length xs - n) xs"

definition hist_inv :: "entry list \<Rightarrow> bool" where
  "hist_inv h \<longleftrightarrow> length h \<le> history_cap"

subsection \<open>Lemmas on the abstraction\<close>

lemma length_last_n [simp]: "length (last_n n xs) = min n (length xs)"
  by (simp add: last_n_def)

lemma last_n_append_last_n: "last_n n (last_n n xs @ ys) = last_n n (xs @ ys)"
  by (cases "n \<le> length xs") (simp_all add: last_n_def drop_append add.commute)

lemma last_n_short: "length xs \<le> n \<Longrightarrow> last_n n xs = xs"
  by (simp add: last_n_def)

lemma set_last_n: "set (last_n n xs) \<subseteq> set xs"
  by (simp add: last_n_def set_drop_subset)

subsection \<open>One call\<close>

lemma add_to_request_history_last_n:
  assumes "hist_inv h"
  shows "add_to_request_history h q r = last_n history_cap (h @ [mk_entry (q, r)])"
proof (cases "history_cap \<le> length h")
  case True
  with assms have "length h = history_cap" by (simp add: hist_inv_def)
  with True show ?thesis
    by (simp add: add_to_request_history_def last_n_def mk_entry_def drop_Suc history_cap_def)
next
  case False
  then show ?thesis
    by (simp add: add_to_request_history_def last_n_short mk_entry_def)
qed

lemma hist_inv_add: "hist_inv h \<Longrightarrow> hist_inv (add_to_request_history h q r)"
  by (simp add: add_to_request_history_last_n hist_inv_def)

lemma hist_inv_Nil [simp]: "hist_inv []"
  by (simp add: hist_inv_def)

lemma length_add_to_request_history:
  "length (add_to_request_history h q r) =
     (if history_cap \<le> length h then length h else Suc (length h))"
  by (cases h) (auto simp: add_to_request_history_def history_cap_def)

lemma last_add_to_request_history [simp]:
  "last (add_to_request_history h q r) = \<lparr>request = q, response = r\<rparr>"
  by (simp add: add_to_request_history_def Let_def)

subsection \<open>Runs of calls\<close>

lemma record_all_last_n:
  "hist_inv h \<Longrightarrow> record_all h xs = last_n history_cap (h @ map mk_entry xs)"
proof (induction xs arbitrary: h)
  case Nil
  then show ?case by (simp add: last_n_short hist_inv_def)
next
  case (Cons x xs)
  obtain q r where x: "x = (q, r)" by fastforce
  let ?h' = "add_to_request_history h q r"
  from Cons.prems have "hist_inv ?h'" by (rule hist_inv_add)
  then have "record_all ?h' xs = last_n history_cap (?h' @ map mk_entry xs)"
    by (rule Cons.IH)
  also have "\<dots> = last_n history_cap (h @ map mk_entry (x # xs))"
    using Cons.prems x by (simp add: add_to_request_history_last_n last_n_append_last_n)
  finally show ?case using x by simp
qed

lemma hist_inv_record_all: "hist_inv h \<Longrightarrow> hist_inv (record_all h xs)"
  by (simp add: record_all_last_n hist_inv_def)

end
