(* ===== verification/Pystr.thy ===== *)
theory Pystr
  imports Prelude
begin

text \<open>
  The Python \<open>str\<close> operations that src/server.py calls, on code-point strings:
  \<open>str.split()\<close> without a separator (runs of whitespace separate tokens),
  \<open>str.strip()\<close>, \<open>s.split('\n')[0]\<close>, \<open>startswith\<close>, \<open>endswith\<close>,
  \<open>lstrip('/')\<close>, \<open>str(n)\<close> of a non-negative integer, and \<open>html.escape\<close>
  (written, as the standard library writes it, as five \<open>str.replace\<close> calls).
  Each follows CPython's algorithm; the lemmas give the characterisations the
  handler's proofs use (tokens have no whitespace, join/split round trip, digits
  round trip, escape equals a one-pass character map and has an inverse).
\<close>

subsection \<open>Whitespace, as \<open>str.isspace\<close> defines it for \<open>split()\<close> and \<open>strip()\<close>\<close>

definition is_space :: "cp \<Rightarrow> bool" where
  "is_space c \<longleftrightarrow>
     (9 \<le> c \<and> c \<le> 13) \<or> (28 \<le> c \<and> c \<le> 32) \<or> c = 133 \<or> c = 160 \<or> c = 5760 \<or>
     (8192 \<le> c \<and> c \<le> 8202) \<or> c = 8232 \<or> c = 8233 \<or> c = 8239 \<or> c = 8287 \<or> c = 12288"

subsection \<open>\<open>str.split()\<close>: CPython's \<open>split_whitespace\<close> loop\<close>

function py_split :: "ustr \<Rightarrow> ustr list" where
  "py_split s =
     (let s1 = dropWhile is_space s
      in if s1 = [] then []
         else takeWhile (\<lambda>c. \<not> is_space c) s1 # py_split (dropWhile (\<lambda>c. \<not> is_space c) s1))"
  by pat_completeness auto
termination
proof (relation "measure length")
  fix s s1
  assume s1: "s1 = dropWhile is_space s" and ne: "s1 \<noteq> []"
  have "length (dropWhile (\<lambda>c. \<not> is_space c) s1) < length s1"
  proof (cases s1)
    case (Cons c cs)
    with s1 have "\<not> is_space c"
      by (metis dropWhile_eq_Cons_conv)
    with Cons show ?thesis
      by (simp add: le_imp_less_Suc length_dropWhile_le)
  qed (use ne in simp)
  also have "\<dots> \<le> length s" using s1 by (simp add: length_dropWhile_le)
  finally show "(dropWhile (\<lambda>c. \<not> is_space c) s1, s) \<in> measure length" by simp
qed simp

declare py_split.simps [simp del]

definition py_strip :: "ustr \<Rightarrow> ustr" where
  "py_strip s = rev (dropWhile is_space (rev (dropWhile is_space s)))"

text \<open>\<open>s.split('\n')[0]\<close>: the text before the first line feed (all of it if none).\<close>

definition first_line :: "ustr \<Rightarrow> ustr" where
  "first_line s = takeWhile (\<lambda>c. c \<noteq> 10) s"

subsection \<open>Prefixes and suffixes\<close>

fun startswith :: "ustr \<Rightarrow> ustr \<Rightarrow> bool" where
  "startswith s [] = True"
| "startswith [] (p # ps) = False"
| "startswith (c # cs) (p # ps) = (c = p \<and> startswith cs ps)"

text \<open>CPython's \<open>tailmatch\<close>: compare the last \<open>len(suffix)\<close> characters.\<close>

definition endswith :: "ustr \<Rightarrow> ustr \<Rightarrow> bool" where
  "endswith s p \<longleftrightarrow> length p \<le> length s \<and> drop (length s - length p) s = p"

definition lstrip_char :: "cp \<Rightarrow> ustr \<Rightarrow> ustr" where
  "lstrip_char c s = dropWhile (\<lambda>x. x = c) s"

text \<open>\<open>sep.join(parts)\<close>\<close>

fun str_join :: "ustr \<Rightarrow> ustr list \<Rightarrow> ustr" where
  "str_join sep [] = []"
| "str_join sep [x] = x"
| "str_join sep (x # y # zs) = x @ sep @ str_join sep (y # zs)"

subsection \<open>\<open>str(n)\<close> for a natural number\<close>

fun str_of_nat :: "nat \<Rightarrow> ustr" where
  "str_of_nat n = (if n < 10 then [48 + n] else str_of_nat (n div 10) @ [48 + n mod 10])"

declare str_of_nat.simps [simp del]

text \<open>How a client reads the decimal field back (\<open>int(s)\<close> on digits).\<close>

definition nat_of_digits :: "ustr \<Rightarrow> nat" where
  "nat_of_digits ds = foldl (\<lambda>a d. 10 * a + (d - 48)) 0 ds"

subsection \<open>\<open>html.escape(s)\<close> with \<open>quote=True\<close>\<close>

text \<open>\<open>s.replace(old, new)\<close> for a one-character \<open>old\<close>.\<close>

definition replace_char :: "cp \<Rightarrow> ustr \<Rightarrow> ustr \<Rightarrow> ustr" where
  "replace_char old new s = concat (map (\<lambda>c. if c = old then new else [c]) s)"

definition html_escape :: "ustr \<Rightarrow> ustr" where
  "html_escape s =
     (let s = replace_char 38 (ascii ''&amp;'') s;
          s = replace_char 60 (ascii ''&lt;'') s;
          s = replace_char 62 (ascii ''&gt;'') s;
          s = replace_char 34 (ascii ''&quot;'') s
      in replace_char 39 (ascii ''&#x27;'') s)"

text \<open>The one-pass form of \<open>html.escape\<close>, and its inverse on the five entities it
  produces (what a browser does when it renders the escaped text).\<close>

definition esc_char :: "cp \<Rightarrow> ustr" where
  "esc_char c =
     (if c = 38 then ascii ''&amp;'' else if c = 60 then ascii ''&lt;''
      else if c = 62 then ascii ''&gt;'' else if c = 34 then ascii ''&quot;''
      else if c = 39 then ascii ''&#x27;'' else [c])"

fun html_unescape :: "ustr \<Rightarrow> ustr" where
  "html_unescape [] = []"
| "html_unescape (c # cs) =
     (if c = 38 then
        if startswith cs (ascii ''amp;'') then 38 # html_unescape (drop 4 cs)
        else if startswith cs (ascii ''lt;'') then 60 # html_unescape (drop 3 cs)
        else if startswith cs (ascii ''gt;'') then 62 # html_unescape (drop 3 cs)
        else if startswith cs (ascii ''quot;'') then 34 # html_unescape (drop 5 cs)
        else if startswith cs (ascii ''#x27;'') then 39 # html_unescape (drop 5 cs)
        else 38 # html_unescape cs
      else c # html_unescape cs)"

subsection \<open>Lemmas\<close>

lemma is_space_ascii [simp]:
  "is_space 32" "is_space 9" "is_space 10" "is_space 13" "\<not> is_space 0"
  by (simp_all add: is_space_def)

lemma py_split_eq:
  "py_split s =
     (if dropWhile is_space s = [] then []
      else takeWhile (\<lambda>c. \<not> is_space c) (dropWhile is_space s)
           # py_split (dropWhile (\<lambda>c. \<not> is_space c) (dropWhile is_space s)))"
  by (subst py_split.simps) (simp add: Let_def)

lemma py_split_blank: "dropWhile is_space s = [] \<Longrightarrow> py_split s = []"
  by (subst py_split_eq) simp

lemma py_split_nonblank:
  "dropWhile is_space s \<noteq> [] \<Longrightarrow>
   py_split s = takeWhile (\<lambda>c. \<not> is_space c) (dropWhile is_space s)
                # py_split (dropWhile (\<lambda>c. \<not> is_space c) (dropWhile is_space s))"
  by (subst py_split_eq) (simp only: if_False)

lemma py_split_tokens: "t \<in> set (py_split s) \<Longrightarrow> t \<noteq> [] \<and> (\<forall>c \<in> set t. \<not> is_space c)"
proof (induction s rule: py_split.induct)
  case (1 s)
  let ?s1 = "dropWhile is_space s"
  let ?tok = "takeWhile (\<lambda>c. \<not> is_space c) ?s1"
  show ?case
  proof (cases "?s1 = []")
    case True
    with "1.prems" show ?thesis by (simp add: py_split_blank)
  next
    case False
    have "?tok \<noteq> []"
      using hd_dropWhile [OF False] False by (simp add: takeWhile_eq_Nil_iff)
    then have tok: "?tok \<noteq> [] \<and> (\<forall>c \<in> set ?tok. \<not> is_space c)"
      by (blast dest: set_takeWhileD)
    have "t = ?tok \<or> t \<in> set (py_split (dropWhile (\<lambda>c. \<not> is_space c) ?s1))"
      using "1.prems" py_split_nonblank [OF False] by simp
    then show ?thesis
    proof
      assume t: "t = ?tok"
      show ?thesis unfolding t by (rule tok)
    next
      assume "t \<in> set (py_split (dropWhile (\<lambda>c. \<not> is_space c) ?s1))"
      then show ?thesis by (rule "1.IH" [OF refl False])
    qed
  qed
qed

lemma py_split_Nil [simp]: "py_split [] = []"
  by (simp add: py_split_blank)

lemma py_split_space: "is_space c \<Longrightarrow> py_split (c # s) = py_split s"
  by (subst (1 2) py_split_eq) simp

lemma py_split_token:
  assumes "t \<noteq> []" and "\<forall>c \<in> set t. \<not> is_space c" and "r = [] \<or> is_space (hd r)"
  shows "py_split (t @ r) = t # py_split r"
proof -
  have d: "dropWhile is_space (t @ r) = t @ r" using assms(1,2) by (cases t) auto
  have "takeWhile (\<lambda>c. \<not> is_space c) (t @ r) = t"
    using assms(2,3) by (cases r) (auto simp: takeWhile_append2)
  moreover have "dropWhile (\<lambda>c. \<not> is_space c) (t @ r) = r"
    using assms(2,3) by (cases r) (auto simp: dropWhile_append2)
  moreover have "dropWhile is_space (t @ r) \<noteq> []" using d assms(1) by simp
  ultimately show ?thesis using py_split_nonblank [of "t @ r"] d by simp
qed

lemma py_split_append_spaces:
  "\<forall>c \<in> set t. is_space c \<Longrightarrow> py_split (s @ t) = py_split s"
proof (induction s rule: py_split.induct)
  case (1 s)
  let ?s1 = "dropWhile is_space s"
  let ?nsp = "\<lambda>c. \<not> is_space c"
  show ?case
  proof (cases "?s1 = []")
    case True
    then have "dropWhile is_space (s @ t) = []"
      using "1.prems" by (simp add: dropWhile_append)
    with True show ?thesis by (simp add: py_split_blank)
  next
    case False
    then obtain x where "x \<in> set s" "\<not> is_space x" by auto
    then have d: "dropWhile is_space (s @ t) = ?s1 @ t" by (rule dropWhile_append1)
    have tw: "takeWhile ?nsp (?s1 @ t) = takeWhile ?nsp ?s1"
      using "1.prems" by (cases t) (auto simp: takeWhile_append intro!: takeWhile_eq_all_conv [THEN iffD2, symmetric])
    have dw: "dropWhile ?nsp (?s1 @ t) = dropWhile ?nsp ?s1 @ t"
      using "1.prems" by (cases t) (auto simp: dropWhile_append)
    have ne: "dropWhile is_space (s @ t) \<noteq> []" using d False by simp
    show ?thesis
      using py_split_nonblank [OF ne] py_split_nonblank [OF False] d tw dw
        "1.IH" [OF refl False "1.prems"]
      by simp
  qed
qed

lemma py_split_strip: "py_split (py_strip s) = py_split s"
proof -
  let ?s1 = "dropWhile is_space s"
  let ?tail = "rev (takeWhile is_space (rev ?s1))"
  have split: "?s1 = py_strip s @ ?tail"
    unfolding py_strip_def by (metis rev_append takeWhile_dropWhile_id rev_rev_ident)
  have "\<forall>c \<in> set ?tail. is_space c" by (auto dest: set_takeWhileD)
  then have "py_split ?s1 = py_split (py_strip s)"
    by (subst split) (rule py_split_append_spaces)
  moreover have "py_split ?s1 = py_split s"
    by (subst (1 2) py_split_eq) simp
  ultimately show ?thesis by simp
qed

lemma first_line_append: "10 \<notin> set a \<Longrightarrow> first_line (a @ 10 # b) = a"
  unfolding first_line_def by (induction a) auto

lemma first_line_no_lf: "10 \<notin> set a \<Longrightarrow> first_line a = a"
  by (auto simp: first_line_def takeWhile_eq_all_conv)

lemma startswith_iff: "startswith s p \<longleftrightarrow> (\<exists>r. s = p @ r)"
  by (induction s p rule: startswith.induct) auto

lemma startswith_append [simp]: "startswith (p @ r) p"
  by (simp add: startswith_iff)

lemma endswith_iff: "endswith s p \<longleftrightarrow> (\<exists>r. s = r @ p)"
proof
  assume "endswith s p"
  then have "s = take (length s - length p) s @ p"
    unfolding endswith_def by (metis append_take_drop_id)
  then show "\<exists>r. s = r @ p" ..
next
  assume "\<exists>r. s = r @ p"
  then show "endswith s p" by (auto simp: endswith_def)
qed

lemma nat_of_digits_snoc: "nat_of_digits (ds @ [d]) = 10 * nat_of_digits ds + (d - 48)"
  by (simp add: nat_of_digits_def)

lemma str_of_nat_roundtrip: "nat_of_digits (str_of_nat n) = n"
proof (induction n rule: str_of_nat.induct)
  case (1 n)
  show ?case
  proof (cases "n < 10")
    case True
    then show ?thesis by (simp add: str_of_nat.simps [of n] nat_of_digits_def)
  next
    case False
    then have "nat_of_digits (str_of_nat n) = 10 * nat_of_digits (str_of_nat (n div 10)) + n mod 10"
      by (simp add: str_of_nat.simps [of n] nat_of_digits_snoc)
    with "1.IH" False show ?thesis by simp
  qed
qed

lemma str_of_nat_digits: "d \<in> set (str_of_nat n) \<Longrightarrow> 48 \<le> d \<and> d < 58"
proof (induction n rule: str_of_nat.induct)
  case (1 n)
  then show ?case
    by (cases "n < 10") (auto simp: str_of_nat.simps [of n])
qed

lemma str_of_nat_ne [simp]: "str_of_nat n \<noteq> []"
  by (simp add: str_of_nat.simps [of n])

lemma set_str_join: "y \<in> set ys \<Longrightarrow> set y \<subseteq> set (str_join sep ys)"
  by (induction sep ys rule: str_join.induct) auto

lemma html_escape_append: "html_escape (s @ t) = html_escape s @ html_escape t"
  by (simp add: html_escape_def replace_char_def)

lemma html_escape_single: "html_escape [c] = esc_char c"
  by (simp add: html_escape_def replace_char_def esc_char_def ascii_def)

lemma html_escape_one_pass: "html_escape s = concat (map esc_char s)"
proof (induction s)
  case Nil
  then show ?case by (simp add: html_escape_def replace_char_def)
next
  case (Cons c s)
  have "html_escape (c # s) = html_escape [c] @ html_escape s"
    using html_escape_append [of "[c]" s] by simp
  with Cons.IH show ?case by (simp add: html_escape_single)
qed

lemma html_unescape_esc_char: "html_unescape (esc_char c @ r) = c # html_unescape r"
  by (simp add: esc_char_def ascii_def)

lemma html_escape_roundtrip: "html_unescape (html_escape s) = s"
  by (induction s) (simp_all add: html_escape_one_pass html_unescape_esc_char)

lemma html_escape_no_markup: "set (html_escape s) \<inter> {34, 39, 60, 62} = {}"
  by (auto simp: html_escape_one_pass esc_char_def ascii_def split: if_splits)


lemma py_split_chars: "t \<in> set (py_split s) \<Longrightarrow> set t \<subseteq> set s"
proof (induction s rule: py_split.induct)
  case (1 s)
  let ?s1 = "dropWhile is_space s"
  have sub: "set ?s1 \<subseteq> set s" by (auto dest: set_dropWhileD)
  show ?case
  proof (cases "?s1 = []")
    case True
    with "1.prems" show ?thesis by (simp add: py_split_blank)
  next
    case False
    have "t = takeWhile (\<lambda>c. \<not> is_space c) ?s1 \<or> t \<in> set (py_split (dropWhile (\<lambda>c. \<not> is_space c) ?s1))"
      using "1.prems" py_split_nonblank [OF False] by simp
    then show ?thesis
    proof
      assume "t = takeWhile (\<lambda>c. \<not> is_space c) ?s1"
      then show ?thesis using sub by (auto dest: set_takeWhileD)
    next
      assume "t \<in> set (py_split (dropWhile (\<lambda>c. \<not> is_space c) ?s1))"
      then have "set t \<subseteq> set (dropWhile (\<lambda>c. \<not> is_space c) ?s1)" by (rule "1.IH" [OF refl False])
      then show ?thesis using sub by (auto dest: set_dropWhileD)
    qed
  qed
qed

lemma set_py_strip: "set (py_strip s) \<subseteq> set s"
  by (auto simp: py_strip_def dest!: set_dropWhileD)

lemma set_first_line: "set (first_line s) \<subseteq> set s"
  by (auto simp: first_line_def dest: set_takeWhileD)

end
