(* ===== verification/Fsys.thy ===== *)
theory Fsys
  imports Pystr
begin

text \<open>
  The part of the operating system the server reads: a directory tree with the
  entries of each directory in the order \<open>os.listdir\<close> returns them, and the POSIX
  path resolution that \<open>open(path, 'rb')\<close> and \<open>os.listdir(path)\<close> perform
  (components split at \<open>/\<close>; \<open>''\<close> and \<open>.\<close> stay, \<open>..\<close> goes to the parent and
  stays at the root; every component needs a directory to be looked up in, else
  \<open>NotADirectoryError\<close>; a missing name is \<open>FileNotFoundError\<close>; an embedded
  NUL is Python's \<open>ValueError\<close>). Symbolic links and permissions are not modelled.
  \<open>path_join\<close> is \<open>posixpath.join\<close> with two arguments.
\<close>

datatype node = File bytes | Dir "(ustr \<times> node) list"

fun lookup :: "node \<Rightarrow> ustr list \<Rightarrow> node option" where
  "lookup nd [] = Some nd"
| "lookup (File bs) (n # ns) = None"
| "lookup (Dir es) (n # ns) = (case map_of es n of None \<Rightarrow> None | Some x \<Rightarrow> lookup x ns)"

text \<open>Resolve the remaining components \<open>cs\<close> from the directory at \<open>cur\<close>.\<close>

fun walk :: "node \<Rightarrow> ustr list \<Rightarrow> ustr list \<Rightarrow> exc + ustr list" where
  "walk root cur [] = Inr cur"
| "walk root cur (c # cs) =
     (case lookup root cur of
        Some (Dir es) \<Rightarrow>
          if c = [] \<or> c = ascii ''.'' then walk root cur cs
          else if c = ascii ''..'' then walk root (butlast cur) cs
          else (case map_of es c of
                  None \<Rightarrow> Inl FileNotFoundError
                | Some _ \<Rightarrow> walk root (cur @ [c]) cs)
      | _ \<Rightarrow> Inl NotADirectoryError)"

definition resolve :: "node \<Rightarrow> ustr \<Rightarrow> exc + node" where
  "resolve root p =
     (if 0 \<in> set p then Inl ValueError
      else if p = [] then Inl FileNotFoundError
      else (case walk root [] (split_on 47 p) of
              Inl e \<Rightarrow> Inl e
            | Inr cur \<Rightarrow> (case lookup root cur of None \<Rightarrow> Inl FileNotFoundError | Some nd \<Rightarrow> Inr nd)))"

text \<open>\<open>open(p, 'rb').read()\<close>\<close>

definition os_read :: "node \<Rightarrow> ustr \<Rightarrow> exc + bytes" where
  "os_read root p =
     (case resolve root p of
        Inl e \<Rightarrow> Inl e
      | Inr (File bs) \<Rightarrow> Inr bs
      | Inr (Dir es) \<Rightarrow> Inl IsADirectoryError)"

text \<open>\<open>os.listdir(p)\<close>\<close>

definition os_listdir :: "node \<Rightarrow> ustr \<Rightarrow> exc + ustr list" where
  "os_listdir root p =
     (case resolve root p of
        Inl e \<Rightarrow> Inl e
      | Inr (File bs) \<Rightarrow> Inl NotADirectoryError
      | Inr (Dir es) \<Rightarrow> Inr (map fst es))"

text \<open>\<open>os.path.join(a, b)\<close> (posixpath)\<close>

definition path_join :: "ustr \<Rightarrow> ustr \<Rightarrow> ustr" where
  "path_join a b =
     (if startswith b [47] then b else if a = [] \<or> last a = 47 then a @ b else a @ [47] @ b)"

text \<open>The names an operating system allows in a directory: non-empty, no \<open>/\<close>,
  no NUL, neither \<open>.\<close> nor \<open>..\<close>, and distinct within the directory.\<close>

definition good_name :: "ustr \<Rightarrow> bool" where
  "good_name n \<longleftrightarrow> n \<noteq> [] \<and> 47 \<notin> set n \<and> 0 \<notin> set n \<and> n \<noteq> ascii ''.'' \<and> n \<noteq> ascii ''..''"

fun wf_node :: "node \<Rightarrow> bool" where
  "wf_node (File bs) = True"
| "wf_node (Dir es) =
     (distinct (map fst es) \<and> (\<forall>(n, x) \<in> set es. good_name n \<and> wf_node x))"

text \<open>An absolute path written from its components, as the server builds them.\<close>

definition abs_path :: "ustr list \<Rightarrow> ustr" where
  "abs_path ns = concat (map (\<lambda>n. 47 # n) ns)"

text \<open>Every name in the tree satisfies \<open>P\<close> (for \<open>os.listdir\<close>, whose names are
  \<open>str\<close>s decoded with \<open>surrogateescape\<close>: a name that is not UTF-8 holds lone
  surrogates).\<close>

fun all_names :: "(ustr \<Rightarrow> bool) \<Rightarrow> node \<Rightarrow> bool" where
  "all_names P (File bs) = True"
| "all_names P (Dir es) = (\<forall>(n, x) \<in> set es. P n \<and> all_names P x)"

subsection \<open>Lemmas: resolution of well-formed absolute paths\<close>

lemma lookup_append:
  "lookup root (xs @ ys) = (case lookup root xs of None \<Rightarrow> None | Some nd \<Rightarrow> lookup nd ys)"
  by (induction root xs rule: lookup.induct) (auto split: option.splits)

lemma split_on_abs_path:
  "\<forall>n \<in> set ns. 47 \<notin> set n \<Longrightarrow> split_on 47 (abs_path ns) = [] # ns"
proof (induction ns)
  case Nil
  then show ?case by (simp add: abs_path_def)
next
  case (Cons n ns)
  then show ?case
    by (cases ns) (auto simp: abs_path_def split_on_prefix split_on_free)
qed

lemma walk_append:
  "\<forall>n \<in> set cs. good_name n \<Longrightarrow> lookup root (cur @ cs) \<noteq> None \<Longrightarrow>
   walk root cur (cs @ rest) = walk root (cur @ cs) rest"
proof (induction cs arbitrary: cur)
  case Nil
  then show ?case by simp
next
  case (Cons c cs)
  from Cons.prems(2) obtain nd where nd: "lookup root cur = Some nd" and
    c: "lookup nd (c # cs) \<noteq> None"
    by (auto simp: lookup_append split: option.splits)
  then obtain es x where es: "nd = Dir es" "map_of es c = Some x"
    by (cases nd) (auto split: option.splits)
  have g: "c \<noteq> []" "c \<noteq> ascii ''.''" "c \<noteq> ascii ''..''"
    using Cons.prems(1) by (auto simp: good_name_def)
  have "walk root (cur @ [c]) (cs @ rest) = walk root (cur @ [c] @ cs) rest"
    using Cons.IH [of "cur @ [c]"] Cons.prems by simp
  with nd es g show ?case by simp
qed

lemma walk_root:
  assumes "\<forall>n \<in> set ns. good_name n" and "lookup root ns \<noteq> None" and "root = Dir es"
  shows "walk root [] ([] # ns @ rest) = walk root ns rest"
  using walk_append [of ns root "[]" rest] assms by simp

lemma abs_path_ok:
  "\<forall>n \<in> set ns. good_name n \<Longrightarrow> ns \<noteq> [] \<Longrightarrow> abs_path ns \<noteq> [] \<and> 0 \<notin> set (abs_path ns)"
  by (cases ns) (auto simp: good_name_def abs_path_def)

lemma split_on_abs_path_good:
  "\<forall>n \<in> set ns. good_name n \<Longrightarrow> split_on 47 (abs_path ns) = [] # ns"
  by (rule split_on_abs_path) (auto simp: good_name_def)

lemma resolve_abs_path:
  assumes "ns \<noteq> []" and "\<forall>n \<in> set ns. good_name n" and "lookup root ns = Some nd"
  shows "resolve root (abs_path ns) = Inr nd"
proof -
  obtain es where root: "root = Dir es"
    using assms(1,3) by (cases root; cases ns) auto
  have "walk root [] ([] # ns @ []) = Inr ns"
    using walk_root [OF assms(2) _ root, of "[]"] assms(3) by simp
  then show ?thesis
    using abs_path_ok [OF assms(2,1)] assms(3)
    by (simp add: resolve_def split_on_abs_path_good [OF assms(2)])
qed

lemma resolve_missing:
  assumes "\<forall>n \<in> set (ds @ [m]). good_name n" and "lookup root ds = Some (Dir es)"
    and "map_of es m = None"
  shows "resolve root (abs_path (ds @ [m])) = Inl FileNotFoundError"
proof -
  obtain es0 where root: "root = Dir es0"
    using assms(2) by (cases root; cases ds) auto
  have g: "\<forall>n \<in> set ds. good_name n" "m \<noteq> []" "m \<noteq> ascii ''.''" "m \<noteq> ascii ''..''"
    using assms(1) by (auto simp: good_name_def)
  have "walk root [] ([] # ds @ [m]) = Inl FileNotFoundError"
    using walk_root [OF g(1) _ root, of "[m]"] assms(2,3) g(2-4) by simp
  then show ?thesis
    using abs_path_ok [OF assms(1)]
    by (simp add: resolve_def split_on_abs_path_good [OF assms(1)] del: append.simps)
qed

lemma os_read_file:
  "ns \<noteq> [] \<Longrightarrow> \<forall>n \<in> set ns. good_name n \<Longrightarrow> lookup root ns = Some (File bs) \<Longrightarrow>
   os_read root (abs_path ns) = Inr bs"
  by (simp add: os_read_def resolve_abs_path)

lemma os_read_missing:
  "\<forall>n \<in> set (ds @ [m]). good_name n \<Longrightarrow> lookup root ds = Some (Dir es) \<Longrightarrow> map_of es m = None \<Longrightarrow>
   os_read root (abs_path (ds @ [m])) = Inl FileNotFoundError"
  by (simp add: os_read_def resolve_missing)

lemma os_listdir_missing:
  "\<forall>n \<in> set (ds @ [m]). good_name n \<Longrightarrow> lookup root ds = Some (Dir es) \<Longrightarrow> map_of es m = None \<Longrightarrow>
   os_listdir root (abs_path (ds @ [m])) = Inl FileNotFoundError"
  by (simp add: os_listdir_def resolve_missing)

lemma os_listdir_dir:
  "ns \<noteq> [] \<Longrightarrow> \<forall>n \<in> set ns. good_name n \<Longrightarrow> lookup root ns = Some (Dir es) \<Longrightarrow>
   os_listdir root (abs_path ns) = Inr (map fst es)"
  by (simp add: os_listdir_def resolve_abs_path)

lemma lookup_prefix_dir:
  "lookup root (xs @ [y]) = Some nd \<Longrightarrow> \<exists>es. lookup root xs = Some (Dir es) \<and> map_of es y \<noteq> None"
proof -
  assume l: "lookup root (xs @ [y]) = Some nd"
  then obtain x where x: "lookup root xs = Some x" "lookup x [y] = Some nd"
    by (auto simp: lookup_append split: option.splits)
  then show ?thesis by (cases x) (auto split: option.splits)
qed

lemma resolve_dotdot:
  assumes g: "\<forall>x \<in> set (ds @ [a, b, n]). good_name x" and ne: "ds \<noteq> []"
    and ab: "lookup root (ds @ [a, b]) = Some (Dir esb)" and n: "lookup root (ds @ [n]) = Some nd"
  shows "resolve root (abs_path (ds @ [a, b, ascii ''..'', ascii ''..'', n])) = Inr nd"
proof -
  obtain es where root: "root = Dir es" using ne n by (cases root; cases ds) auto
  obtain esa where a: "lookup root (ds @ [a]) = Some (Dir esa)" "map_of esa b \<noteq> None"
    using lookup_prefix_dir [of root "ds @ [a]" b] ab by auto
  obtain esd where d: "lookup root ds = Some (Dir esd)" "map_of esd n \<noteq> None"
    using lookup_prefix_dir [of root ds n nd] n by auto
  obtain esd' where d': "lookup root ds = Some (Dir esd')" "map_of esd' a \<noteq> None"
    using lookup_prefix_dir [of root ds a] a by auto
  have gds: "\<forall>x \<in> set ds. good_name x" using g by auto
  have ga: "a \<noteq> [] \<and> a \<noteq> ascii ''.'' \<and> a \<noteq> ascii ''..''" "b \<noteq> [] \<and> b \<noteq> ascii ''.'' \<and> b \<noteq> ascii ''..''"
    "n \<noteq> [] \<and> n \<noteq> ascii ''.'' \<and> n \<noteq> ascii ''..''"
    using g by (simp_all add: good_name_def)
  have w0: "walk root [] ([] # ds @ [a, b, ascii ''..'', ascii ''..'', n]) =
        walk root ds [a, b, ascii ''..'', ascii ''..'', n]"
    by (rule walk_root [OF gds _ root]) (simp add: d)
  have dots: "ascii ''..'' \<noteq> []" "ascii ''..'' \<noteq> ascii ''.''" by (simp_all add: ascii_def)
  have "walk root ds [a, b, ascii ''..'', ascii ''..'', n] = Inr (ds @ [n])"
    using d d' a ab ga dots by (auto simp: butlast_append)
  moreover have "split_on 47 (abs_path (ds @ [a, b, ascii ''..'', ascii ''..'', n])) =
      [] # ds @ [a, b, ascii ''..'', ascii ''..'', n]"
    using g by (intro split_on_abs_path) (auto simp: good_name_def ascii_def)
  moreover have "0 \<notin> set (abs_path (ds @ [a, b, ascii ''..'', ascii ''..'', n]))"
    using g by (auto simp: good_name_def ascii_def abs_path_def)
  moreover have "abs_path (ds @ [a, b, ascii ''..'', ascii ''..'', n]) \<noteq> []"
    by (simp add: abs_path_def)
  ultimately show ?thesis using w0 n by (simp add: resolve_def)
qed

lemma abs_path_snoc: "abs_path (ds @ [x]) = abs_path ds @ 47 # x"
  by (simp add: abs_path_def)

lemma last_abs_path:
  "ds \<noteq> [] \<Longrightarrow> \<forall>x \<in> set ds. good_name x \<Longrightarrow> abs_path ds \<noteq> [] \<and> last (abs_path ds) \<noteq> 47"
proof (induction ds rule: rev_induct)
  case (snoc x xs)
  then have "x \<noteq> []" "47 \<notin> set x" by (simp_all add: good_name_def)
  moreover from this have "last x \<noteq> 47" by (metis last_in_set)
  ultimately show ?case by (simp add: abs_path_snoc)
qed simp

lemma path_join_abs:
  "ds \<noteq> [] \<Longrightarrow> \<forall>x \<in> set ds. good_name x \<Longrightarrow> \<not> startswith b [47] \<Longrightarrow>
   path_join (abs_path ds) b = abs_path ds @ 47 # b"
  using last_abs_path [of ds] by (simp add: path_join_def)

lemma lookup_all_names: "lookup root p = Some nd \<Longrightarrow> all_names P root \<Longrightarrow> all_names P nd"
proof (induction root p rule: lookup.induct)
  case (3 es n ns)
  then obtain x where x: "map_of es n = Some x" "lookup x ns = Some nd"
    by (auto split: option.splits)
  then have "(n, x) \<in> set es" by (simp add: map_of_SomeD)
  with "3.prems"(2) have "all_names P x" by auto
  with "3.IH" [OF x(1)] x(2) show ?case by simp
qed simp_all

lemma resolve_all_names: "resolve root p = Inr nd \<Longrightarrow> all_names P root \<Longrightarrow> all_names P nd"
  by (auto simp: resolve_def split: if_splits sum.splits option.splits intro: lookup_all_names)

lemma os_listdir_names:
  "os_listdir root p = Inr ns \<Longrightarrow> all_names P root \<Longrightarrow> \<forall>n \<in> set ns. P n"
  by (fastforce simp: os_listdir_def split: sum.splits node.splits dest!: resolve_all_names [where P = P])

end
