(* ===== verification/Page.thy ===== *)
theory Page
  imports History Fsys
begin

text \<open>
  The index page of \<open>HTTPServer\<close> (src/server.py): \<open>list_reports\<close> (lines
  160-167: \<open>sorted(os.listdir(reports_path))\<close> filtered to names ending in
  \<open>.pdf\<close>, and \<open>[]\<close> on \<open>FileNotFoundError\<close> only) and \<open>create_group_page\<close>
  (lines 169-257: one \<open><li>\<close> link per report, one block per history entry,
  most recent first, request and response passed through \<open>html.escape\<close>, all
  placed into a fixed HTML template). The template's text is transcribed line by
  line; \<open>{{\<close> of the f-string is \<open>{\<close>, and the Cyrillic words are code points.
  The server's configuration \<open>host\<close>, \<open>port\<close>, \<open>base_dir\<close> (lines 9-13)
  is a record; \<open>base_dir\<close> is \<open>os.path.dirname(os.path.abspath(__file__))\<close>,
  an absolute path.
\<close>

record config =
  host :: ustr
  port :: nat
  base_dir :: ustr

definition reports_path :: "config \<Rightarrow> ustr" where
  "reports_path cfg = path_join (path_join (base_dir cfg) (ascii ''static'')) (ascii ''reports'')"

definition list_reports :: "config \<Rightarrow> node \<Rightarrow> exc + ustr list" where
  "list_reports cfg fs =
     (case os_listdir fs (reports_path cfg) of
        Inl e \<Rightarrow> if e = FileNotFoundError then Inr [] else Inl e
      | Inr names \<Rightarrow> Inr (filter (\<lambda>r. endswith r (ascii ''.pdf'')) (sort names)))"

text \<open>The f-string templates of \<open>create_group_page\<close>, cut at their placeholders.\<close>

definition page_part1 :: ustr where
  \<open>page_part1 = str_join [10]
     [[],
      ascii ''                <!DOCTYPE html>'',
      ascii ''                <html lang="ru">'',
      ascii ''                <head>'',
      ascii ''                    <meta charset="UTF-8">'',
      ascii ''                    <title>'' @ [1043, 1088, 1091, 1087, 1087, 1072] @ ascii '' '' @ [1055, 1052, 1048, 1052] @ ascii ''-31</title>'',
      ascii ''                    <style>'',
      ascii ''                        body { '',
      ascii ''                            font-family: Arial, sans-serif; '',
      ascii ''                            max-width: 1200px; '',
      ascii ''                            margin: 0 auto; '',
      ascii ''                            padding: 20px; '',
      ascii ''                            line-height: 1.6; '',
      ascii ''                        }'',
      ascii ''                        h1, h2 { color: #333; text-align: center; }'',
      ascii ''                        .members, .reports, .request-history { '',
      ascii ''                            background-color: #f4f4f4; '',
      ascii ''                            padding: 15px; '',
      ascii ''                            border-radius: 5px;'',
      ascii ''                            margin-bottom: 20px; '',
      ascii ''                        }'',
      ascii ''                        a { color: #0066cc; text-decoration: none; }'',
      ascii ''                        a:hover { text-decoration: underline; }'',
      ascii ''                        .request-response {'',
      ascii ''                            border: 1px solid #ddd;'',
      ascii ''                            margin-bottom: 10px;'',
      ascii ''                            padding: 10px;'',
      ascii ''                        }'',
      ascii ''                        pre {'',
      ascii ''                            background-color: #e9e9e9;'',
      ascii ''                            padding: 10px;'',
      ascii ''                            border-radius: 5px;'',
      ascii ''                            white-space: pre-wrap;'',
      ascii ''                            word-wrap: break-word;'',
      ascii ''                            font-size: 0.8em;'',
      ascii ''                        }'',
      ascii ''                    </style>'',
      ascii ''                </head>'',
      ascii ''                <body>'',
      ascii ''                    <h1>'' @ [1043, 1088, 1091, 1087, 1087, 1072] @ ascii '' '' @ [1055, 1052, 1048, 1052] @ ascii ''-31</h1>'',
      ascii ''                    <div class="members">'',
      ascii ''                        <h2>'' @ [1057, 1086, 1089, 1090, 1072, 1074] @ ascii '' '' @ [1073, 1088, 1080, 1075, 1072, 1076, 1099] @ ascii '':</h2>'',
      ascii ''                        <ul>'',
      ascii ''                            <li>'' @ [1058, 1072, 1088, 1091, 1083, 1080, 1085] @ ascii '' '' @ [1052] @ ascii ''.'' @ [1040] @ ascii ''.</li>'',
      ascii ''                            <li>'' @ [1061, 1086, 1083, 1086, 1076, 1086, 1074, 1072] @ ascii '' '' @ [1042] @ ascii ''.'' @ [1057] @ ascii ''.</li>'',
      ascii ''                        </ul>'',
      ascii ''                    </div>'',
      ascii ''                    <div class="reports">'',
      ascii ''                        <h2>'' @ [1054, 1090, 1095, 1077, 1090, 1099] @ ascii '':</h2>'',
      ascii ''                        <ul>'',
      ascii ''                            '']\<close>

definition page_part2 :: ustr where
  \<open>page_part2 = str_join [10]
     [[],
      ascii ''                        </ul>'',
      ascii ''                    </div>'',
      ascii ''                    <div class="request-history">'',
      ascii ''                        <h2>'' @ [1048, 1089, 1090, 1086, 1088, 1080, 1103] @ ascii '' '' @ [1079, 1072, 1087, 1088, 1086, 1089, 1086, 1074] @ ascii '' '' @ [1080] @ ascii '' '' @ [1086, 1090, 1074, 1077, 1090, 1086, 1074] @ ascii '':</h2>'',
      ascii ''                        '']\<close>

definition page_part3 :: ustr where
  \<open>page_part3 = str_join [10]
     [[],
      ascii ''                    </div>'',
      ascii ''                </body>'',
      ascii ''                </html>'',
      ascii ''                '']\<close>

definition entry_part1 :: ustr where
  \<open>entry_part1 = str_join [10]
     [[],
      ascii ''                <div class="request-response">'',
      ascii ''                    <div class="request">'',
      ascii ''                        <h3>'' @ [1047, 1072, 1087, 1088, 1086, 1089] @ ascii '':</h3>'',
      ascii ''                        <pre>'']\<close>

definition entry_part2 :: ustr where
  \<open>entry_part2 = str_join [10]
     [ascii ''</pre>'',
      ascii ''                    </div>'',
      ascii ''                    <div class="response">'',
      ascii ''                        <h3>'' @ [1054, 1090, 1074, 1077, 1090] @ ascii '':</h3>'',
      ascii ''                        <pre>'']\<close>

definition entry_part3 :: ustr where
  \<open>entry_part3 = str_join [10]
     [ascii ''</pre>'',
      ascii ''                    </div>'',
      ascii ''                </div>'',
      ascii ''                '']\<close>

definition report_item :: "ustr \<Rightarrow> ustr" where
  \<open>report_item r = ascii ''<li><a href="/static/reports/'' @ r @ ascii ''">'' @ r @ ascii ''</a></li>''\<close>

definition entry_html :: "entry \<Rightarrow> ustr" where
  "entry_html e =
     entry_part1 @ html_escape (request e) @ entry_part2 @ html_escape (response e) @ entry_part3"

definition create_group_page :: "config \<Rightarrow> node \<Rightarrow> entry list \<Rightarrow> exc + ustr" where
  "create_group_page cfg fs h =
     (case list_reports cfg fs of
        Inl e \<Rightarrow> Inl e
      | Inr reports \<Rightarrow>
          Inr (page_part1 @ concat (map report_item reports) @ page_part2 @
               concat (map entry_html (rev h)) @ page_part3))"

subsection \<open>Reading the history back from the page\<close>

text \<open>What a reader of the page recovers from the history section: each block is
  \<open>entry_part1\<close>, escaped text up to the next \<open><\<close>, \<open>entry_part2\<close>, escaped
  text, \<open>entry_part3\<close>; the text is unescaped as a browser renders it. This is the
  specification side of the escaping requirement, not a function of the server.\<close>

definition read_field :: "ustr \<Rightarrow> ustr \<times> ustr" where
  "read_field s = (html_unescape (takeWhile (\<lambda>c. c \<noteq> 60) s), dropWhile (\<lambda>c. c \<noteq> 60) s)"

function read_entries :: "ustr \<Rightarrow> (ustr \<times> ustr) list option" where
  "read_entries s =
     (if s = [] then Some []
      else if \<not> startswith s entry_part1 then None
      else
        (let (a, r2) = read_field (drop (length entry_part1) s) in
         if \<not> startswith r2 entry_part2 then None
         else
           (let (b, r4) = read_field (drop (length entry_part2) r2) in
            if \<not> startswith r4 entry_part3 then None
            else map_option ((#) (a, b)) (read_entries (drop (length entry_part3) r4)))))"
  by pat_completeness auto
termination
proof (relation "measure length", goal_cases)
  case (2 s x a r2 y b r4)
  have le: "length (dropWhile P (drop n t)) \<le> length t" for P n and t :: ustr
    by (metis length_dropWhile_le length_drop diff_le_self order_trans)
  have "length r2 \<le> length s" using 2 le by (simp add: read_field_def)
  moreover have "length r4 \<le> length r2" using 2 le by (simp add: read_field_def)
  moreover have "0 < length entry_part3" by (simp add: entry_part3_def ascii_def)
  moreover have "length entry_part3 \<le> length r4" using 2 by (auto simp: startswith_iff)
  ultimately have "length r4 - length entry_part3 < length s" by linarith
  then show ?case by simp
qed simp

declare read_entries.simps [simp del]

subsection \<open>Lemmas\<close>

lemma lt_notin_html_escape: "60 \<notin> set (html_escape s)"
  using html_escape_no_markup [of s] by blast

lemma entry_part23_lt: "hd entry_part2 = 60" "entry_part2 \<noteq> []" "hd entry_part3 = 60" "entry_part3 \<noteq> []"
  by (simp_all add: entry_part2_def entry_part3_def ascii_def)

lemma entry_part1_ne: "entry_part1 \<noteq> []"
  by (simp add: entry_part1_def)

lemma until_lt: "60 \<notin> set xs \<Longrightarrow>
    takeWhile (\<lambda>c. c \<noteq> 60) (xs @ 60 # r) = xs \<and> dropWhile (\<lambda>c. c \<noteq> 60) (xs @ 60 # r) = 60 # r"
  by (induction xs) auto

lemma read_field_escape:
  assumes "r \<noteq> []" and "hd r = 60"
  shows "read_field (html_escape s @ r) = (s, r)"
proof -
  obtain r' where r: "r = 60 # r'" using assms by (cases r) auto
  show ?thesis
    using lt_notin_html_escape [of s]
    by (simp add: r read_field_def until_lt html_escape_roundtrip)
qed

lemma read_entries_entry:
  "read_entries (entry_html e @ rest) = map_option ((#) (request e, response e)) (read_entries rest)"
proof -
  have f1: "read_field (html_escape (request e) @ entry_part2 @ html_escape (response e) @ entry_part3 @ rest)
      = (request e, entry_part2 @ html_escape (response e) @ entry_part3 @ rest)"
    using read_field_escape entry_part23_lt by simp
  have f2: "read_field (html_escape (response e) @ entry_part3 @ rest) = (response e, entry_part3 @ rest)"
    using read_field_escape entry_part23_lt by simp
  show ?thesis
    by (subst read_entries.simps) (simp add: entry_html_def entry_part1_ne f1 f2)
qed

text \<open>C25: The history section of the index page reads back as exactly the recorded requests and responses, in the order rendered, whatever text they contain: escaping prevents markup injection.\<close>

lemma read_entries_history:
  "read_entries (concat (map entry_html es)) = Some (map (\<lambda>e. (request e, response e)) es)"
proof (induction es)
  case Nil
  then show ?case by (simp add: read_entries.simps)
next
  case (Cons e es)
  then show ?case by (simp add: read_entries_entry)
qed


lemma reports_path_abs:
  assumes "base_dir cfg = abs_path ds" and "ds \<noteq> []" and "\<forall>x \<in> set ds. good_name x"
  shows "reports_path cfg = abs_path (ds @ [ascii ''static'', ascii ''reports''])"
proof -
  have g: "\<forall>x \<in> set (ds @ [ascii ''static'']). good_name x" using assms(3) by (auto simp: good_name_def ascii_def)
  have n: "\<not> startswith (ascii ''static'') [47]" "\<not> startswith (ascii ''reports'') [47]" by (simp_all add: ascii_def)
  have "path_join (abs_path ds) (ascii ''static'') = abs_path (ds @ [ascii ''static''])"
    using path_join_abs [OF assms(2,3) n(1)] by (simp add: abs_path_snoc)
  moreover have "path_join (abs_path (ds @ [ascii ''static''])) (ascii ''reports'') =
      abs_path (ds @ [ascii ''static'', ascii ''reports''])"
    using path_join_abs [OF _ g n(2)] abs_path_snoc [of "ds @ [ascii ''static'']"] by simp
  ultimately show ?thesis using assms(1) by (simp add: reports_path_def)
qed

lemma list_reports_listing:
  assumes "os_listdir fs (reports_path cfg) = Inr names"
  shows "list_reports cfg fs = Inr (filter (\<lambda>r. endswith r (ascii ''.pdf'')) (sort names))"
  using assms by (simp add: list_reports_def)

text \<open>C27: list_reports returns a sorted list holding exactly the directory entries whose names end in .pdf, without duplicates.\<close>

lemma list_reports_sorted_pdfs:
  assumes "os_listdir fs (reports_path cfg) = Inr names" and "list_reports cfg fs = Inr rs"
  shows "sorted rs \<and> set rs = {r \<in> set names. endswith r (ascii ''.pdf'')}
         \<and> (distinct names \<longrightarrow> distinct rs)"
  using assms by (auto simp: list_reports_def sorted_filter [where f = id, simplified])

text \<open>list_reports returns the empty list when the reports directory does not exist.\<close>

lemma list_reports_missing:
  assumes "base_dir cfg = abs_path ds" and "ds \<noteq> []" and "\<forall>x \<in> set ds. good_name x"
    and "lookup fs (ds @ [ascii ''static'']) = Some (Dir es)" and "map_of es (ascii ''reports'') = None"
  shows "list_reports cfg fs = Inr []"
proof -
  have "os_listdir fs (abs_path ((ds @ [ascii ''static'']) @ [ascii ''reports''])) = Inl FileNotFoundError"
    using assms(3-5) by (intro os_listdir_missing) (auto simp: good_name_def ascii_def)
  then show ?thesis using reports_path_abs [OF assms(1-3)] by (simp add: list_reports_def)
qed

lemma create_group_page_parts:
  assumes "create_group_page cfg fs h = Inr body"
  shows "\<exists>rs. list_reports cfg fs = Inr rs \<and>
     body = page_part1 @ concat (map report_item rs) @ page_part2 @ concat (map entry_html (rev h)) @ page_part3"
  using assms by (auto simp: create_group_page_def split: sum.splits)

lemma page_part1_not_ascii: "1043 \<in> set page_part1"
proof -
  let ?title = "ascii ''                    <title>'' @ [1043, 1088, 1091, 1087, 1087, 1072] @ ascii '' '' @
    [1055, 1052, 1048, 1052] @ ascii ''-31</title>''"
  have "set ?title \<subseteq> set page_part1"
    unfolding page_part1_def by (rule set_str_join) simp
  then show ?thesis by auto
qed

text \<open>C26: The index page lists the .pdf names of the reports directory in sorted order, then the history most recent first.\<close>

lemma create_group_page_listing:
  assumes "base_dir cfg = abs_path ds" and "ds \<noteq> []" and "\<forall>x \<in> set ds. good_name x"
    and "lookup fs (ds @ [ascii ''static'', ascii ''reports'']) = Some (Dir es)"
  shows "create_group_page cfg fs h =
     Inr (page_part1 @ concat (map report_item (filter (\<lambda>r. endswith r (ascii ''.pdf'')) (sort (map fst es)))) @
          page_part2 @ concat (map entry_html (rev h)) @ page_part3)"
proof -
  have "os_listdir fs (abs_path (ds @ [ascii ''static'', ascii ''reports''])) = Inr (map fst es)"
    using assms(3,4) by (intro os_listdir_dir) (auto simp: good_name_def ascii_def)
  then show ?thesis
    using reports_path_abs [OF assms(1-3)] by (simp add: create_group_page_def list_reports_listing)
qed

end
