(* ===== verification/Utf8.thy ===== *)
theory Utf8
  imports Prelude
begin

text \<open>
  The UTF-8 codec of CPython as src/server.py uses it: \<open>bytes.decode('utf-8')\<close>
  (strict: the first ill-formed sequence raises \<open>UnicodeDecodeError\<close>, here \<open>None\<close>),
  the same decoder with \<open>errors='replace'\<close> (each maximal ill-formed subpart becomes
  one U+FFFD, as \<open>urllib.parse.unquote\<close> uses it) and \<open>str.encode('utf-8')\<close>
  (which raises on a lone surrogate, here \<open>None\<close>). The decoder accepts exactly the
  well-formed sequences of the Unicode standard (Table 3-7): the lead byte fixes the
  number of continuation bytes and the range of the first one.
\<close>

definition valid_cp :: "cp \<Rightarrow> bool" where
  "valid_cp c \<longleftrightarrow> c < 1114112 \<and> \<not> (55296 \<le> c \<and> c \<le> 57343)"

subsection \<open>Encoding\<close>

definition utf8_encode_char :: "cp \<Rightarrow> bytes" where
  "utf8_encode_char c =
     (if c < 128 then [of_nat c]
      else if c < 2048 then [of_nat (192 + c div 64), of_nat (128 + c mod 64)]
      else if c < 65536 then
        [of_nat (224 + c div 4096), of_nat (128 + c div 64 mod 64), of_nat (128 + c mod 64)]
      else [of_nat (240 + c div 262144), of_nat (128 + c div 4096 mod 64),
            of_nat (128 + c div 64 mod 64), of_nat (128 + c mod 64)])"

definition utf8_encode :: "ustr \<Rightarrow> bytes" where
  "utf8_encode s = concat (map utf8_encode_char s)"

text \<open>\<open>str.encode('utf-8')\<close>: \<open>UnicodeEncodeError\<close> on a surrogate.\<close>

definition py_encode :: "ustr \<Rightarrow> bytes option" where
  "py_encode s = (if list_all valid_cp s then Some (utf8_encode s) else None)"

subsection \<open>Decoding\<close>

text \<open>For a lead byte: the number of continuation bytes, the payload bits of the lead
  byte, and the range allowed for the first continuation byte.\<close>

definition lead_info :: "nat \<Rightarrow> (nat \<times> nat \<times> nat \<times> nat) option" where
  "lead_info b =
     (if 194 \<le> b \<and> b \<le> 223 then Some (Suc 0, b - 192, 128, 191)
      else if b = 224 then Some (Suc (Suc 0), 0, 160, 191)
      else if (225 \<le> b \<and> b \<le> 236) \<or> b = 238 \<or> b = 239 then Some (Suc (Suc 0), b - 224, 128, 191)
      else if b = 237 then Some (Suc (Suc 0), 13, 128, 159)
      else if b = 240 then Some (Suc (Suc (Suc 0)), 0, 144, 191)
      else if 241 \<le> b \<and> b \<le> 243 then Some (Suc (Suc (Suc 0)), b - 240, 128, 191)
      else if b = 244 then Some (Suc (Suc (Suc 0)), 4, 128, 143)
      else None)"

text \<open>Read \<open>n\<close> continuation bytes, the first in \<open>[lo, hi]\<close>, the others in
  \<open>[0x80, 0xBF]\<close>: \<open>Inr (value, n)\<close>, or \<open>Inl k\<close> when only \<open>k\<close> bytes matched.\<close>

fun read_cont :: "nat \<Rightarrow> nat \<Rightarrow> nat \<Rightarrow> nat \<Rightarrow> bytes \<Rightarrow> nat + (nat \<times> nat)" where
  "read_cont 0 acc lo hi bs = Inr (acc, 0)"
| "read_cont (Suc n) acc lo hi [] = Inl 0"
| "read_cont (Suc n) acc lo hi (b # bs) =
     (if lo \<le> unat b \<and> unat b \<le> hi then
        (case read_cont n (acc * 64 + (unat b - 128)) 128 191 bs of
           Inl k \<Rightarrow> Inl (Suc k)
         | Inr (v, k) \<Rightarrow> Inr (v, Suc k))
      else Inl 0)"

text \<open>One decoding step at lead byte \<open>b\<close>: \<open>Inr (c, k)\<close> decodes \<open>c\<close> and consumes
  \<open>k\<close> further bytes; \<open>Inl k\<close> is an ill-formed subpart of \<open>1 + k\<close> bytes.\<close>

definition utf8_step :: "byte \<Rightarrow> bytes \<Rightarrow> nat + (cp \<times> nat)" where
  "utf8_step b bs =
     (if unat b < 128 then Inr (unat b, 0)
      else case lead_info (unat b) of
        None \<Rightarrow> Inl 0
      | Some (n, v, lo, hi) \<Rightarrow> read_cont n v lo hi bs)"

fun utf8_decode :: "bytes \<Rightarrow> ustr option" where
  "utf8_decode [] = Some []"
| "utf8_decode (b # bs) =
     (case utf8_step b bs of
        Inl k \<Rightarrow> None
      | Inr (c, k) \<Rightarrow> map_option (Cons c) (utf8_decode (drop k bs)))"

fun utf8_decode_replace :: "bytes \<Rightarrow> ustr" where
  "utf8_decode_replace [] = []"
| "utf8_decode_replace (b # bs) =
     (case utf8_step b bs of
        Inl k \<Rightarrow> 65533 # utf8_decode_replace (drop k bs)
      | Inr (c, k) \<Rightarrow> c # utf8_decode_replace (drop k bs))"

subsection \<open>Lemmas: the encoder meets the decoder\<close>

lemma unat_byte [simp]: "x < 256 \<Longrightarrow> unat (of_nat x :: byte) = x"
  by (simp add: unat_of_nat)

lemma lead_info_2: "2 \<le> d \<Longrightarrow> d \<le> 31 \<Longrightarrow> lead_info (192 + d) = Some (Suc 0, d, 128, 191)"
  by (simp add: lead_info_def)

lemma lead_info_3:
  "d \<le> 15 \<Longrightarrow> lead_info (224 + d) =
     Some (Suc (Suc 0), d, if d = 0 then 160 else 128, if d = 13 then 159 else 191)"
  by (auto simp: lead_info_def)

lemma lead_info_4:
  "d \<le> 4 \<Longrightarrow> lead_info (240 + d) =
     Some (Suc (Suc (Suc 0)), d, if d = 0 then 144 else 128, if d = 4 then 143 else 191)"
  by (auto simp: lead_info_def)

lemma step_encode_1: "c < 128 \<Longrightarrow> utf8_step (of_nat c) r = Inr (c, 0)"
  by (simp add: utf8_step_def)

lemma step_encode_2:
  assumes "128 \<le> c" "c < 2048"
  shows "utf8_step (of_nat (192 + c div 64)) (of_nat (128 + c mod 64) # r) = Inr (c, Suc 0)"
proof -
  have d: "2 \<le> c div 64" "c div 64 \<le> 31" using assms by auto
  have "c div 64 * 64 + c mod 64 = c" by simp
  then show ?thesis using d assms by (simp add: utf8_step_def lead_info_2 del: of_nat_add)
qed

lemma div4096: "(c::nat) div 4096 * 64 + c div 64 mod 64 = c div 64"
proof -
  have "c div 4096 = c div 64 div 64" using div_mult2_eq [of c 64 64] by simp
  then show ?thesis by simp
qed

lemma div262144: "(c::nat) div 262144 * 64 + c div 4096 mod 64 = c div 4096"
proof -
  have "c div 262144 = c div 4096 div 64" using div_mult2_eq [of c 4096 64] by simp
  then show ?thesis by simp
qed

lemma step_encode_3:
  assumes "2048 \<le> c" "c < 65536" "valid_cp c"
  shows "utf8_step (of_nat (224 + c div 4096))
           (of_nat (128 + c div 64 mod 64) # of_nat (128 + c mod 64) # r) = Inr (c, Suc (Suc 0))"
proof -
  let ?d = "c div 4096" and ?m = "c div 64 mod 64"
  have d: "?d \<le> 15" using assms by auto
  have lo: "(if ?d = 0 then 160 else 128) \<le> 128 + ?m"
    using assms(1) by auto
  have hi: "128 + ?m \<le> (if ?d = 13 then 159 else 191)"
  proof (cases "?d = 13")
    case True
    have "c < 55296" using assms(3) True by (auto simp: valid_cp_def)
    have "c = 4096 * ?d + c mod 4096" by simp
    with True \<open>c < 55296\<close> have "c mod 4096 < 2048" by linarith
    moreover have "c mod 4096 = 64 * ?m + c mod 64"
      using mod_mult2_eq [of c 64 64] by simp
    ultimately have "c div 64 mod 64 \<le> 31" by linarith
    with True show ?thesis by simp
  qed simp
  have v: "(?d * 64 + ?m) * 64 + c mod 64 = c"
    by (simp add: div4096)
  define l where "l = (if ?d = 0 then 160 else (128::nat))"
  define h where "h = (if ?d = 13 then 159 else (191::nat))"
  have li: "lead_info (224 + ?d) = Some (Suc (Suc 0), ?d, l, h)"
    using lead_info_3 [OF d] by (simp add: l_def h_def)
  have u0: "unat (of_nat (224 + ?d) :: byte) = 224 + ?d" using d by (simp del: of_nat_add)
  have u1: "unat (of_nat (128 + ?m) :: byte) = 128 + ?m" by (simp del: of_nat_add)
  have u2: "unat (of_nat (128 + c mod 64) :: byte) = 128 + c mod 64" by (simp del: of_nat_add)
  have "l \<le> 128 + ?m" "128 + ?m \<le> h" using lo hi by (simp_all add: l_def h_def)
  moreover have "c mod 64 \<le> 63" using mod_less_divisor [of 64 c] by linarith
  ultimately show ?thesis using u0 u1 u2 li v
    by (simp add: utf8_step_def del: of_nat_add)
qed

lemma step_encode_4:
  assumes "65536 \<le> c" "valid_cp c"
  shows "utf8_step (of_nat (240 + c div 262144))
           (of_nat (128 + c div 4096 mod 64) # of_nat (128 + c div 64 mod 64) #
            of_nat (128 + c mod 64) # r) = Inr (c, Suc (Suc (Suc 0)))"
proof -
  let ?d = "c div 262144" and ?m1 = "c div 4096 mod 64" and ?m2 = "c div 64 mod 64"
  have c: "c < 1114112" using assms(2) by (simp add: valid_cp_def)
  then have d: "?d \<le> 4" by auto
  have lo: "(if ?d = 0 then 144 else 128) \<le> 128 + ?m1"
  proof (cases "?d = 0")
    case True
    then have "c < 262144" by auto
    then have "c div 4096 < 64" by auto
    moreover have "16 \<le> c div 4096" using assms(1) by auto
    ultimately show ?thesis using True by simp
  qed simp
  have hi: "128 + ?m1 \<le> (if ?d = 4 then 143 else 191)"
  proof (cases "?d = 4")
    case True
    have "c = 262144 * ?d + c mod 262144" by simp
    with True c have "c mod 262144 < 65536" by linarith
    moreover have "c mod 262144 = 4096 * ?m1 + c mod 4096"
      using mod_mult2_eq [of c 4096 64] by simp
    ultimately have "?m1 \<le> 15" by linarith
    with True show ?thesis by simp
  next
    case False
    have "?m1 < 64" by simp
    with False show ?thesis by simp
  qed
  have v: "((?d * 64 + ?m1) * 64 + ?m2) * 64 + c mod 64 = c"
    by (simp add: div262144 div4096)
  define l where "l = (if ?d = 0 then 144 else (128::nat))"
  define h where "h = (if ?d = 4 then 143 else (191::nat))"
  have li: "lead_info (240 + ?d) = Some (Suc (Suc (Suc 0)), ?d, l, h)"
    using lead_info_4 [OF d] by (simp add: l_def h_def)
  have u0: "unat (of_nat (240 + ?d) :: byte) = 240 + ?d" using d by (simp del: of_nat_add)
  have u1: "unat (of_nat (128 + ?m1) :: byte) = 128 + ?m1" by (simp del: of_nat_add)
  have u2: "unat (of_nat (128 + ?m2) :: byte) = 128 + ?m2" by (simp del: of_nat_add)
  have u3: "unat (of_nat (128 + c mod 64) :: byte) = 128 + c mod 64" by (simp del: of_nat_add)
  have "l \<le> 128 + ?m1" "128 + ?m1 \<le> h" using lo hi by (simp_all add: l_def h_def)
  moreover have "c mod 64 \<le> 63" using mod_less_divisor [of 64 c] by linarith
  moreover have "?m2 \<le> 63" using mod_less_divisor [of 64 "c div 64"] by linarith
  ultimately show ?thesis using u0 u1 u2 u3 li v
    by (simp add: utf8_step_def del: of_nat_add)
qed

lemma utf8_encode_char_step:
  assumes "valid_cp c" and "utf8_encode_char c = b # bs"
  shows "utf8_step b (bs @ r) = Inr (c, length bs)"
proof -
  consider "c < 128" | "128 \<le> c" "c < 2048" | "2048 \<le> c" "c < 65536" | "65536 \<le> c"
    by linarith
  then show ?thesis
  proof cases
    case 1
    with assms(2) show ?thesis by (auto simp: utf8_encode_char_def step_encode_1)
  next
    case 2
    with assms(2) show ?thesis
      using step_encode_2 [OF 2, of r] by (auto simp: utf8_encode_char_def simp del: of_nat_add)
  next
    case 3
    with assms show ?thesis
      using step_encode_3 [OF 3 assms(1), of r] by (auto simp: utf8_encode_char_def simp del: of_nat_add)
  next
    case 4
    with assms show ?thesis
      using step_encode_4 [OF 4 assms(1), of r] by (auto simp: utf8_encode_char_def simp del: of_nat_add)
  qed
qed

lemma utf8_encode_char_ne: "utf8_encode_char c \<noteq> []"
  by (simp add: utf8_encode_char_def)

lemma length_utf8_encode_char:
  "length (utf8_encode_char c) = (if c < 128 then 1 else if c < 2048 then 2 else if c < 65536 then 3 else 4)"
  by (simp add: utf8_encode_char_def)

lemma utf8_roundtrip: "list_all valid_cp s \<Longrightarrow> utf8_decode (utf8_encode s) = Some s"
proof (induction s)
  case Nil
  then show ?case by (simp add: utf8_encode_def)
next
  case (Cons c s)
  obtain b bs where e: "utf8_encode_char c = b # bs"
    using utf8_encode_char_ne by (cases "utf8_encode_char c") auto
  have "utf8_encode (c # s) = b # bs @ utf8_encode s"
    using e by (simp add: utf8_encode_def)
  moreover have "utf8_step b (bs @ utf8_encode s) = Inr (c, length bs)"
    using Cons.prems e by (simp add: utf8_encode_char_step)
  ultimately show ?case using Cons by simp
qed

lemma utf8_decode_replace_agrees: "utf8_decode bs = Some s \<Longrightarrow> utf8_decode_replace bs = s"
  by (induction bs arbitrary: s rule: utf8_decode.induct) (auto split: sum.splits)

lemma length_utf8_encode_ge: "length s \<le> length (utf8_encode s)"
  by (induction s) (auto simp: utf8_encode_def length_utf8_encode_char)

lemma length_utf8_encode_ascii:
  "length (utf8_encode s) = length s \<longleftrightarrow> (\<forall>c \<in> set s. c < 128)"
proof (induction s)
  case Nil
  then show ?case by (simp add: utf8_encode_def)
next
  case (Cons c s)
  have "length (utf8_encode (c # s)) = length (utf8_encode_char c) + length (utf8_encode s)"
    by (simp add: utf8_encode_def)
  then show ?case
    using Cons.IH length_utf8_encode_ge [of s]
    by (auto simp: length_utf8_encode_char)
qed

lemma py_encode_valid: "list_all valid_cp s \<Longrightarrow> py_encode s = Some (utf8_encode s)"
  by (simp add: py_encode_def)

lemma utf8_encode_append [simp]: "utf8_encode (s @ t) = utf8_encode s @ utf8_encode t"
  by (simp add: utf8_encode_def)

lemma read_cont_range:
  "read_cont m a 128 191 ys = Inr (c, k) \<Longrightarrow> a * 64 ^ m \<le> c \<and> c < Suc a * 64 ^ m"
proof (induction m arbitrary: a ys c k)
  case 0
  then show ?case by simp
next
  case (Suc n)
  obtain b bs where ys: "ys = b # bs" using Suc.prems by (cases ys) auto
  let ?x = "unat b - 128"
  from Suc.prems have b: "128 \<le> unat b" "unat b \<le> 191"
    and r: "read_cont n (a * 64 + ?x) 128 191 bs = Inr (c, k - 1)"
    by (auto simp: ys split: if_splits sum.splits)
  have x: "?x < 64" using b by simp
  from Suc.IH [OF r] have "(a * 64 + ?x) * 64 ^ n \<le> c" "c < Suc (a * 64 + ?x) * 64 ^ n" by simp_all
  moreover have "a * 64 ^ Suc n \<le> (a * 64 + ?x) * 64 ^ n" by (simp add: algebra_simps)
  moreover have "Suc (a * 64 + ?x) * 64 ^ n \<le> Suc a * 64 ^ Suc n"
  proof -
    have "Suc (a * 64 + ?x) \<le> Suc a * 64" using x by simp
    then have "Suc (a * 64 + ?x) * 64 ^ n \<le> (Suc a * 64) * 64 ^ n" by (rule mult_le_mono1)
    then show ?thesis by (simp only: power_Suc mult.assoc mult.commute [of 64])
  qed
  ultimately show ?case by linarith
qed

lemma read_cont_first:
  assumes "read_cont (Suc m) a lo hi bs = Inr (c, k)"
  shows "\<exists>x. lo \<le> x \<and> x \<le> hi \<and> (a * 64 + (x - 128)) * 64 ^ m \<le> c \<and> c < Suc (a * 64 + (x - 128)) * 64 ^ m"
proof -
  obtain b bs' where bs: "bs = b # bs'" using assms by (cases bs) auto
  from assms have "lo \<le> unat b" "unat b \<le> hi"
    and r: "read_cont m (a * 64 + (unat b - 128)) 128 191 bs' = Inr (c, k - 1)"
    by (auto simp: bs split: if_splits sum.splits)
  with read_cont_range [OF r] show ?thesis by blast
qed

lemma utf8_step_valid:
  assumes "utf8_step b bs = Inr (c, k)"
  shows "valid_cp c"
proof (cases "unat b < 128")
  case True
  then show ?thesis using assms by (simp add: utf8_step_def valid_cp_def)
next
  case False
  then obtain n v lo hi where li: "lead_info (unat b) = Some (n, v, lo, hi)"
    and r: "read_cont n v lo hi bs = Inr (c, k)"
    using assms by (auto simp: utf8_step_def split: option.splits)
  have "unat b < 256" by simp
  from li consider
      "194 \<le> unat b" "unat b \<le> 223" "n = Suc 0" "v = unat b - 192" "lo = 128" "hi = 191"
    | "n = Suc (Suc 0)" "v = 0" "lo = 160" "hi = 191"
    | "n = Suc (Suc 0)" "1 \<le> v" "v \<le> 15" "v \<noteq> 13" "lo = 128" "hi = 191"
    | "n = Suc (Suc 0)" "v = 13" "lo = 128" "hi = 159"
    | "n = Suc (Suc (Suc 0))" "v = 0" "lo = 144" "hi = 191"
    | "n = Suc (Suc (Suc 0))" "1 \<le> v" "v \<le> 3" "lo = 128" "hi = 191"
    | "n = Suc (Suc (Suc 0))" "v = 4" "lo = 128" "hi = 143"
    unfolding lead_info_def by (auto split: if_splits)
  then show ?thesis
  proof cases
    case 1
    with read_cont_first [of 0 v lo hi bs c k] r show ?thesis by (auto simp: valid_cp_def)
  next
    case 2
    with read_cont_first [of "Suc 0" v lo hi bs c k] r show ?thesis by (auto simp: valid_cp_def)
  next
    case 3
    with read_cont_first [of "Suc 0" v lo hi bs c k] r show ?thesis by (auto simp: valid_cp_def)
  next
    case 4
    with read_cont_first [of "Suc 0" v lo hi bs c k] r show ?thesis by (auto simp: valid_cp_def)
  next
    case 5
    with read_cont_first [of "Suc (Suc 0)" v lo hi bs c k] r show ?thesis by (auto simp: valid_cp_def)
  next
    case 6
    with read_cont_first [of "Suc (Suc 0)" v lo hi bs c k] r show ?thesis by (auto simp: valid_cp_def)
  next
    case 7
    with read_cont_first [of "Suc (Suc 0)" v lo hi bs c k] r show ?thesis by (auto simp: valid_cp_def)
  qed
qed

lemma utf8_decode_valid: "utf8_decode bs = Some s \<Longrightarrow> list_all valid_cp s"
proof (induction bs arbitrary: s rule: utf8_decode.induct)
  case (2 b bs)
  then show ?case by (auto split: sum.splits dest: utf8_step_valid)
qed simp

lemma utf8_step_lead_alone:
  "194 \<le> unat b \<Longrightarrow> unat b \<le> 244 \<Longrightarrow> utf8_step b [] = Inl 0"
  by (auto simp: utf8_step_def lead_info_def)

lemma utf8_decode_ascii_prefix:
  "\<forall>x \<in> set xs. unat x < 128 \<Longrightarrow>
   utf8_decode (xs @ ys) = map_option (\<lambda>s. map unat xs @ s) (utf8_decode ys)"
  by (induction xs) (auto simp: utf8_step_def map_option_case split: option.splits)

lemma utf8_decode_cut:
  "\<forall>x \<in> set xs. unat x < 128 \<Longrightarrow> 194 \<le> unat b \<Longrightarrow> unat b \<le> 244 \<Longrightarrow>
   utf8_decode (xs @ [b]) = None"
  by (simp add: utf8_decode_ascii_prefix utf8_step_lead_alone)

lemma utf8_encode_char_lead:
  assumes "128 \<le> c" and "valid_cp c"
  shows "\<exists>b r. utf8_encode_char c = b # r \<and> r \<noteq> [] \<and> 194 \<le> unat b \<and> unat b \<le> 244"
proof -
  have c: "c < 1114112" using assms(2) by (simp add: valid_cp_def)
  have "c div 262144 \<le> 4" using c by simp
  then show ?thesis
    using assms(1) c by (auto simp: utf8_encode_char_def simp del: of_nat_add)
qed

lemma utf8_encode_ascii_bytes: "\<forall>c \<in> set s. c < 128 \<Longrightarrow> \<forall>x \<in> set (utf8_encode s). unat x < 128"
  by (auto simp: utf8_encode_def utf8_encode_char_def)

text \<open>C33: Whatever str.encode('utf-8') produces, the strict decoder of line 40 decodes back to the same string: the decoder accepts every well-formed UTF-8 sequence.\<close>

lemma py_encode_decode: "py_encode s = Some bs \<Longrightarrow> utf8_decode bs = Some s"
  by (auto simp: py_encode_def utf8_roundtrip split: if_splits)


lemma utf8_decode_replace_valid: "list_all valid_cp (utf8_decode_replace bs)"
proof (induction bs rule: utf8_decode_replace.induct)
  case (2 b bs)
  then show ?case by (auto simp: valid_cp_def split: sum.splits dest: utf8_step_valid)
qed simp

end
