(* ===== verification/Unquote.thy ===== *)
theory Unquote
  imports Utf8
begin

text \<open>
  \<open>urllib.parse.unquote(path)\<close> as \<open>handle_client\<close> calls it (src/server.py, line
  51), with its defaults \<open>encoding='utf-8'\<close>, \<open>errors='replace'\<close>. CPython returns the
  string unchanged when it has no \<open>%\<close>; otherwise it cuts it into maximal runs of
  ASCII and non-ASCII characters, keeps the non-ASCII runs, and replaces each ASCII run
  by \<open>_unquote_impl(run).decode('utf-8', 'replace')\<close>. \<open>_unquote_impl\<close> splits
  the bytes at \<open>b'%'\<close> and, for every piece after the first, turns a leading pair of
  hex digits into one byte (\<open>_hextobyte[item[:2]]\<close>) or, on \<open>KeyError\<close>, puts the
  \<open>%\<close> back. The scanning form \<open>unquote_scan\<close> is proved equal to it, and
  \<open>unquote\<close> inverts full percent-encoding of any valid string.
\<close>

definition is_hex :: "byte \<Rightarrow> bool" where
  "is_hex b \<longleftrightarrow> (48 \<le> unat b \<and> unat b \<le> 57) \<or> (65 \<le> unat b \<and> unat b \<le> 70) \<or>
                 (97 \<le> unat b \<and> unat b \<le> 102)"

definition hex_val :: "byte \<Rightarrow> nat" where
  "hex_val b = (if unat b \<le> 57 then unat b - 48 else if unat b \<le> 70 then unat b - 55 else unat b - 87)"

text \<open>\<open>bytes.split(b'%')\<close> is \<open>split_on 37\<close> of the prelude.\<close>

text \<open>\<open>_hextobyte[k]\<close>: the table holds exactly the two-character hex strings.\<close>

definition hextobyte :: "bytes \<Rightarrow> byte option" where
  "hextobyte k =
     (case k of
        [h1, h2] \<Rightarrow> if is_hex h1 \<and> is_hex h2 then Some (of_nat (16 * hex_val h1 + hex_val h2)) else None
      | _ \<Rightarrow> None)"

definition unquote_item :: "bytes \<Rightarrow> bytes" where
  "unquote_item item =
     (case hextobyte (take 2 item) of Some v \<Rightarrow> v # drop 2 item | None \<Rightarrow> 37 # item)"

definition unquote_impl :: "bytes \<Rightarrow> bytes" where
  "unquote_impl s =
     (if s = [] then []
      else (case split_on 37 s of
              [] \<Rightarrow> s
            | [b] \<Rightarrow> s
            | b0 # items \<Rightarrow> b0 @ concat (map unquote_item items)))"

text \<open>The same, written as one left-to-right scan.\<close>

fun unquote_scan :: "bytes \<Rightarrow> bytes" where
  "unquote_scan [] = []"
| "unquote_scan (b # bs) =
     (if b = 37 then
        (case hextobyte (take 2 bs) of
           Some v \<Rightarrow> v # unquote_scan (drop 2 bs)
         | None \<Rightarrow> 37 # unquote_scan bs)
      else b # unquote_scan bs)"

text \<open>\<open>_asciire.finditer\<close>: maximal runs, tagged with whether they are ASCII.\<close>

fun runs :: "ustr \<Rightarrow> (bool \<times> ustr) list" where
  "runs [] = []"
| "runs (c # cs) =
     (case runs cs of
        [] \<Rightarrow> [(c < 128, [c])]
      | (b, r) # rs \<Rightarrow> if b = (c < 128) then (b, c # r) # rs else (c < 128, [c]) # (b, r) # rs)"

definition unquote_run :: "bool \<times> ustr \<Rightarrow> ustr" where
  "unquote_run br =
     (if fst br then utf8_decode_replace (unquote_impl (map of_nat (snd br))) else snd br)"

definition unquote :: "ustr \<Rightarrow> ustr" where
  "unquote s = (if 37 \<notin> set s then s else concat (map unquote_run (runs s)))"

text \<open>Full percent-encoding (every byte of the UTF-8 form as \<open>%XX\<close>), for the
  round trip.\<close>

definition hex_digit :: "nat \<Rightarrow> cp" where
  "hex_digit n = (if n < 10 then 48 + n else 55 + n)"

definition quote_all :: "ustr \<Rightarrow> ustr" where
  "quote_all s =
     concat (map (\<lambda>b. [37, hex_digit (unat b div 16), hex_digit (unat b mod 16)]) (utf8_encode s))"

definition pct_byte :: "byte \<Rightarrow> ustr" where
  "pct_byte b = [37, hex_digit (unat b div 16), hex_digit (unat b mod 16)]"


subsection \<open>Lemmas\<close>

lemma not_hex_percent [simp]: "\<not> is_hex 37"
  by (simp add: is_hex_def)

lemma unquote_scan_plain: "37 \<notin> set x \<Longrightarrow> unquote_scan (x @ r) = x @ unquote_scan r"
  by (induction x) auto

lemma hextobyte_Some_length: "hextobyte k = Some v \<Longrightarrow> length k = 2"
  by (auto simp: hextobyte_def split: list.splits if_splits)

lemma hextobyte_take_append:
  assumes "37 \<notin> set item" and "r = [] \<or> hd r = 37"
  shows "hextobyte (take 2 (item @ r)) = hextobyte (take 2 item)"
proof (cases "2 \<le> length item")
  case True
  then show ?thesis by simp
next
  case False
  show ?thesis
  proof (cases r)
    case (Cons x xs)
    with assms(2) have "x = 37" by simp
    with False Cons assms(1) show ?thesis
      by (cases item) (auto simp: hextobyte_def split: list.splits)
  qed simp
qed

lemma unquote_scan_item:
  assumes "37 \<notin> set item" and "r = [] \<or> hd r = 37"
  shows "unquote_scan (37 # item @ r) = unquote_item item @ unquote_scan r"
proof (cases "hextobyte (take 2 item)")
  case None
  with assms show ?thesis
    by (simp add: hextobyte_take_append unquote_item_def unquote_scan_plain del: take_append)
next
  case (Some v)
  then have "2 \<le> length item" using hextobyte_Some_length by fastforce
  then have "drop 2 (item @ r) = drop 2 item @ r" by simp
  moreover have "37 \<notin> set (drop 2 item)" using assms(1) by (meson in_set_dropD)
  ultimately show ?thesis using assms Some
    by (simp add: hextobyte_take_append unquote_item_def unquote_scan_plain del: take_append drop_append)
qed

lemma unquote_scan_items:
  "\<forall>i \<in> set items. 37 \<notin> set i \<Longrightarrow>
     unquote_scan (concat (map ((#) 37) items)) = concat (map unquote_item items)"
proof (induction items)
  case Nil
  then show ?case by simp
next
  case (Cons i js)
  let ?R = "concat (map ((#) 37) js)"
  have "?R = [] \<or> hd ?R = 37" by (cases js) auto
  then have "unquote_scan (37 # i @ ?R) = unquote_item i @ unquote_scan ?R"
    using Cons.prems by (intro unquote_scan_item) auto
  with Cons show ?case by simp
qed

lemma unquote_impl_scan: "unquote_impl s = unquote_scan s"
proof (cases "split_on 37 s")
  case Nil
  then show ?thesis using split_on_ne [of 37 s] by simp
next
  case (Cons b0 items)
  note parts = split_on_parts [OF Cons]
  show ?thesis
  proof (cases items)
    case Nil
    with parts have "s = b0" "37 \<notin> set b0" by auto
    then show ?thesis
      using unquote_scan_plain [of s "[]"] Cons Nil by (simp add: unquote_impl_def)
  next
    case (Cons i js)
    from parts have "unquote_scan s = b0 @ concat (map unquote_item items)"
      by (metis unquote_scan_items unquote_scan_plain)
    with Cons \<open>split_on 37 s = b0 # items\<close> show ?thesis
      by (auto simp: unquote_impl_def)
  qed
qed

lemma byte_div16 [simp]: "unat (b :: byte) div 16 < 16"
  using unat_byte_lt [of b] less_mult_imp_div_less [of "unat b" 16 16] by simp

lemma hex_digit_ascii: "n < 16 \<Longrightarrow> hex_digit n < 128"
  by (simp add: hex_digit_def)

lemma hex_digit_inverse:
  assumes "n < 16"
  shows "is_hex (of_nat (hex_digit n)) \<and> hex_val (of_nat (hex_digit n)) = n"
proof -
  have "hex_digit n < 256" using assms by (simp add: hex_digit_def)
  then have u: "unat (of_nat (hex_digit n) :: byte) = hex_digit n" by (simp add: unat_of_nat)
  show ?thesis using assms u by (auto simp: is_hex_def hex_val_def hex_digit_def simp del: of_nat_add)
qed

lemma quote_all_pct: "quote_all s = concat (map pct_byte (utf8_encode s))"
  by (simp add: quote_all_def pct_byte_def [abs_def])

lemma hextobyte_pct:
  "hextobyte [of_nat (hex_digit (unat b div 16)), of_nat (hex_digit (unat b mod 16))] = Some b"
proof -
  have lt: "unat b div 16 < 16" "unat b mod 16 < 16" by simp_all
  have "of_nat (16 * (unat b div 16) + unat b mod 16) = (b :: byte)" by simp
  with hex_digit_inverse [OF lt(1)] hex_digit_inverse [OF lt(2)] show ?thesis
    by (simp add: hextobyte_def)
qed

lemma unquote_scan_pct: "unquote_scan (map of_nat (concat (map pct_byte bs))) = bs"
  by (induction bs) (simp_all add: pct_byte_def hextobyte_pct)

lemma runs_ascii: "xs \<noteq> [] \<Longrightarrow> \<forall>c \<in> set xs. c < 128 \<Longrightarrow> runs xs = [(True, xs)]"
proof (induction xs)
  case (Cons c cs)
  then show ?case by (cases cs) auto
qed simp

lemma quote_all_ascii: "c \<in> set (quote_all s) \<Longrightarrow> c < 128"
  by (auto simp: quote_all_pct pct_byte_def hex_digit_ascii split: if_splits)

text \<open>C37: urllib.parse.unquote inverts full percent-encoding of the UTF-8 form of any valid string.\<close>

lemma unquote_quote_all: "list_all valid_cp s \<Longrightarrow> unquote (quote_all s) = s"
proof (cases "s = []")
  case True
  then show ?thesis by (simp add: unquote_def quote_all_def utf8_encode_def)
next
  case False
  assume v: "list_all valid_cp s"
  have "utf8_encode s \<noteq> []"
    using False by (cases s) (simp_all add: utf8_encode_def utf8_encode_char_ne)
  then obtain b bs where e: "utf8_encode s = b # bs" by (meson neq_Nil_conv)
  have q: "quote_all s \<noteq> []" "37 \<in> set (quote_all s)"
    using e by (auto simp: quote_all_pct pct_byte_def)
  have "runs (quote_all s) = [(True, quote_all s)]"
    using q(1) quote_all_ascii by (blast intro: runs_ascii)
  then have "unquote (quote_all s) = utf8_decode_replace (utf8_encode s)"
    using q(2) by (simp add: unquote_def unquote_run_def unquote_impl_scan quote_all_pct unquote_scan_pct)
  also have "\<dots> = s"
    using v by (simp add: utf8_roundtrip utf8_decode_replace_agrees)
  finally show ?thesis .
qed

text \<open>C38: CPython's split-based unquote equals the left-to-right scanning decoder on every ASCII run.\<close>

lemma unquote_scan_equiv:
  "unquote s =
     (if 37 \<notin> set s then s
      else concat (map (\<lambda>r. if fst r then utf8_decode_replace (unquote_scan (map of_nat (snd r))) else snd r)
                       (runs s)))"
  unfolding unquote_def unquote_run_def unquote_impl_scan by (rule refl)


lemma runs_chars: "(b, r) \<in> set (runs s) \<Longrightarrow> set r \<subseteq> set s"
proof (induction s arbitrary: b r)
  case (Cons c cs)
  note IH = Cons.IH and prems = Cons.prems
  show ?case
  proof (cases "runs cs")
    case Nil
    with prems show ?thesis by simp
  next
    case (Cons x rs)
    obtain b' r' where x: "x = (b', r')" by (cases x)
    have "set r' \<subseteq> set cs" using IH [of b' r'] Cons x by simp
    moreover have "\<forall>(b'', r'') \<in> set rs. set r'' \<subseteq> set cs" using IH Cons by auto
    ultimately show ?thesis using prems Cons x by (auto split: if_splits)
  qed
qed simp

text \<open>With \<open>errors='replace'\<close>, \<open>unquote\<close> of a valid string is valid.\<close>

lemma unquote_valid: "list_all valid_cp s \<Longrightarrow> list_all valid_cp (unquote s)"
  by (fastforce simp: unquote_def unquote_run_def list_all_iff utf8_decode_replace_valid [unfolded list_all_iff]
      dest: runs_chars)

end
