(* ===== verification/Handler.thy ===== *)
theory Handler
  imports Page Unquote
begin

text \<open>
  \<open>HTTPServer.handle_client\<close> (src/server.py, lines 36-130) and \<open>serve_pdf\<close>
  (lines 150-158). One connection is handled on a state \<open>hstate\<close>: the server's
  history, the socket operations performed so far in order (\<open>Send\<close> of the bytes
  given to \<open>sendall\<close>, \<open>Close\<close>), whether the socket is closed, and the exception
  the outer \<open>except Exception\<close> caught and printed, if any. \<open>handle_request\<close> is
  the body of the outer \<open>try\<close>: \<open>Inl (e, s)\<close> is the exception \<open>e\<close> raised in
  state \<open>s\<close> (effects before the raise stay), \<open>Inr s\<close> a normal end or
  \<open>return\<close>. \<open>handle_client\<close> adds the \<open>except\<close> and the \<open>finally\<close>, which
  closes the socket unless it is closed already. The peer either reads everything
  (\<open>alive\<close>) or has gone, in which case every \<open>sendall\<close> raises; \<open>sendall\<close> on
  a closed socket raises too. \<open>recv(1024)\<close> returns the first 1024 bytes of what
  the client has sent.
\<close>

datatype event = Send bytes | Close

record hstate =
  hist :: "entry list"
  sent :: "event list"
  closed :: bool
  logged :: "exc option"

definition sendall :: "bool \<Rightarrow> bytes \<Rightarrow> hstate \<Rightarrow> (exc \<times> hstate) + hstate" where
  "sendall alive bs s =
     (if alive \<and> \<not> closed s then Inr (s\<lparr>sent := sent s @ [Send bs]\<rparr>) else Inl (ConnectionError, s))"

text \<open>\<open>client_socket.sendall(t.encode('utf-8'))\<close>\<close>

definition send_text :: "bool \<Rightarrow> ustr \<Rightarrow> hstate \<Rightarrow> (exc \<times> hstate) + hstate" where
  "send_text alive t s =
     (case py_encode t of None \<Rightarrow> Inl (UnicodeEncodeError, s) | Some bs \<Rightarrow> sendall alive bs s)"

definition record_hist :: "ustr \<Rightarrow> ustr \<Rightarrow> hstate \<Rightarrow> hstate" where
  "record_hist q r s = s\<lparr>hist := add_to_request_history (hist s) q r\<rparr>"

definition close_sock :: "hstate \<Rightarrow> hstate" where
  "close_sock s = s\<lparr>sent := sent s @ [Close], closed := True\<rparr>"

subsection \<open>The responses (lines 54-112)\<close>

definition resp_400 :: ustr where
  "resp_400 = ascii ''HTTP/1.1 400 Bad Request'' @ crlf @ ascii ''Content-Type: text/plain'' @ crlf @ crlf @
     [1053, 1077, 1074, 1077, 1088, 1085, 1099, 1081, 32, 1092, 1086, 1088, 1084, 1072, 1090, 32,
      1079, 1072, 1087, 1088, 1086, 1089, 1072]"

definition resp_favicon :: ustr where
  "resp_favicon = ascii ''HTTP/1.1 404 Not Found'' @ crlf @
     ascii ''Content-Type: text/plain; charset=utf-8'' @ crlf @ crlf @ ascii ''Favicon not found''"

definition resp_404 :: ustr where
  "resp_404 = ascii ''HTTP/1.1 404 Not Found'' @ crlf @
     ascii ''Content-Type: text/plain; charset=utf-8'' @ crlf @ crlf @
     [1060, 1072, 1081, 1083, 32, 1085, 1077, 32, 1085, 1072, 1081, 1076, 1077, 1085]"

definition resp_405 :: ustr where
  "resp_405 = ascii ''HTTP/1.1 405 Method Not Allowed'' @ crlf @ ascii ''Content-Type: text/plain'' @ crlf @ crlf @
     [1052, 1077, 1090, 1086, 1076, 32, 1085, 1077, 32, 1087, 1086, 1076, 1076, 1077, 1088, 1078,
      1080, 1074, 1072, 1077, 1090, 1089, 1103]"

text \<open>\<open>Content-Length: {len(response_body)}\<close>: \<open>len\<close> of a \<open>str\<close> counts code points.\<close>

definition index_response :: "ustr \<Rightarrow> ustr" where
  "index_response body =
     ascii ''HTTP/1.1 200 OK'' @ crlf @
     ascii ''Server: '' @ [1055, 1052, 1048, 1052] @ ascii ''-31 Web Server'' @ crlf @
     ascii ''Content-Type: text/html; charset=utf-8'' @ crlf @
     ascii ''Content-Length: '' @ str_of_nat (length body) @ crlf @ crlf @ body"

text \<open>Here \<open>response_body\<close> is \<open>bytes\<close>, and \<open>len\<close> counts bytes.\<close>

definition pdf_header :: "bytes \<Rightarrow> ustr" where
  "pdf_header body =
     ascii ''HTTP/1.1 200 OK'' @ crlf @ ascii ''Content-Type: application/pdf'' @ crlf @
     ascii ''Content-Length: '' @ str_of_nat (length body) @ crlf @ crlf"

definition pdf_sent :: ustr where
  "pdf_sent = ascii ''PDF file sent''"

subsection \<open>Parsing and file access\<close>

text \<open>Lines 48-51: \<open>method, path, protocol = request.split('\n')[0].strip().split()\<close>
  (\<open>ValueError\<close>, here \<open>None\<close>, unless there are exactly three tokens), then
  \<open>path = urllib.parse.unquote(path)\<close>.\<close>

definition parse_request_line :: "ustr \<Rightarrow> (ustr \<times> ustr \<times> ustr) option" where
  "parse_request_line req =
     (case py_split (py_strip (first_line req)) of
        [m, p, v] \<Rightarrow> Some (m, unquote p, v)
      | _ \<Rightarrow> None)"

text \<open>\<open>serve_pdf\<close>: \<open>None\<close> on \<open>FileNotFoundError\<close> only; other errors propagate.\<close>

definition serve_pdf :: "config \<Rightarrow> node \<Rightarrow> ustr \<Rightarrow> exc + bytes option" where
  "serve_pdf cfg fs path =
     (case os_read fs (path_join (base_dir cfg) (lstrip_char 47 path)) of
        Inl e \<Rightarrow> if e = FileNotFoundError then Inr None else Inl e
      | Inr bs \<Rightarrow> Inr (Some bs))"

subsection \<open>The handler\<close>

text \<open>Lines 114-122: print, record, then send.\<close>

definition respond :: "bool \<Rightarrow> ustr \<Rightarrow> ustr \<Rightarrow> hstate \<Rightarrow> (exc \<times> hstate) + hstate" where
  "respond alive req resp s = send_text alive resp (record_hist req resp s)"

text \<open>Lines 59-60: send, then record (the malformed-request branch).\<close>

definition send_then_record :: "bool \<Rightarrow> ustr \<Rightarrow> ustr \<Rightarrow> hstate \<Rightarrow> (exc \<times> hstate) + hstate" where
  "send_then_record alive req resp s =
     (case send_text alive resp s of
        Inl r \<Rightarrow> Inl r
      | Inr s1 \<Rightarrow> Inr (record_hist req resp s1))"

text \<open>Lines 89-98: header, file bytes, record, close, return.\<close>

definition send_pdf :: "bool \<Rightarrow> ustr \<Rightarrow> bytes \<Rightarrow> hstate \<Rightarrow> (exc \<times> hstate) + hstate" where
  "send_pdf alive req body s =
     (case send_text alive (pdf_header body) s of
        Inl r \<Rightarrow> Inl r
      | Inr s1 \<Rightarrow>
          (case sendall alive body s1 of
             Inl r \<Rightarrow> Inl r
           | Inr s2 \<Rightarrow> Inr (close_sock (record_hist req pdf_sent s2))))"

definition handle_request :: "config \<Rightarrow> node \<Rightarrow> bool \<Rightarrow> bytes \<Rightarrow> hstate \<Rightarrow> (exc \<times> hstate) + hstate" where
  "handle_request cfg fs alive data s =
     (case utf8_decode (take 1024 data) of
        None \<Rightarrow> Inl (UnicodeDecodeError, s)
      | Some req \<Rightarrow>
          (case parse_request_line req of
             None \<Rightarrow> send_then_record alive req resp_400 s
           | Some (method, path, protocol) \<Rightarrow>
               if path = ascii ''/favicon.ico'' then send_text alive resp_favicon s
               else if method = ascii ''GET'' then
                 if path = ascii ''/'' then
                   (case create_group_page cfg fs (hist s) of
                      Inl e \<Rightarrow> Inl (e, s)
                    | Inr body \<Rightarrow> respond alive req (index_response body) s)
                 else if startswith path (ascii ''/static/reports/'') then
                   (case serve_pdf cfg fs path of
                      Inl e \<Rightarrow> Inl (e, s)
                    | Inr None \<Rightarrow> respond alive req resp_404 s
                    | Inr (Some body) \<Rightarrow>
                        if body \<noteq> [] then send_pdf alive req body s
                        else respond alive req resp_404 s)
                 else Inl (UnboundLocalError, s)
               else respond alive req resp_405 s))"

definition init_hstate :: "entry list \<Rightarrow> hstate" where
  "init_hstate h = \<lparr>hist = h, sent = [], closed = False, logged = None\<rparr>"

definition handle_client :: "config \<Rightarrow> node \<Rightarrow> bool \<Rightarrow> bytes \<Rightarrow> entry list \<Rightarrow> hstate" where
  "handle_client cfg fs alive data h =
     (let s1 = (case handle_request cfg fs alive data (init_hstate h) of
                  Inl (e, s) \<Rightarrow> s\<lparr>logged := Some e\<rparr>
                | Inr s \<Rightarrow> s)
      in if closed s1 then s1 else close_sock s1)"

subsection \<open>What a client observes\<close>

definition count_close :: "event list \<Rightarrow> nat" where
  "count_close evs = length (filter (\<lambda>e. e = Close) evs)"

text \<open>Socket state consistent with the trace: closed exactly when one \<open>Close\<close>
  has been performed.\<close>

definition close_state :: "hstate \<Rightarrow> bool" where
  "close_state s \<longleftrightarrow>
     (closed s \<and> count_close (sent s) = 1) \<or> (\<not> closed s \<and> count_close (sent s) = 0)"

definition result_state :: "(exc \<times> hstate) + hstate \<Rightarrow> hstate" where
  "result_state r = (case r of Inl (e, s) \<Rightarrow> s | Inr s \<Rightarrow> s)"


subsection \<open>Lemmas\<close>


lemma valid_ascii [simp]: "list_all valid_cp (ascii s)"
  by (auto simp: list_all_iff valid_cp_def dest!: ascii_below_256)

lemma valid_str_of_nat [simp]: "list_all valid_cp (str_of_nat n)"
  by (auto simp: list_all_iff valid_cp_def dest!: str_of_nat_digits)

lemma valid_responses [simp]:
  "list_all valid_cp resp_400" "list_all valid_cp resp_favicon" "list_all valid_cp resp_404"
  "list_all valid_cp resp_405" "list_all valid_cp (pdf_header bs)"
  by (simp_all add: resp_400_def resp_favicon_def resp_404_def resp_405_def pdf_header_def valid_cp_def)

lemma py_encode_responses [simp]:
  "py_encode resp_400 = Some (utf8_encode resp_400)" "py_encode resp_favicon = Some (utf8_encode resp_favicon)"
  "py_encode resp_404 = Some (utf8_encode resp_404)" "py_encode resp_405 = Some (utf8_encode resp_405)"
  "py_encode (pdf_header bs) = Some (utf8_encode (pdf_header bs))"
  by (simp_all add: py_encode_valid)

lemmas handler_defs = handle_client_def handle_request_def respond_def send_pdf_def send_text_def send_then_record_def
  sendall_def record_hist_def close_sock_def init_hstate_def py_encode_valid

text \<open>C9: A well-formed request whose method is not GET and whose path is not /favicon.ico is answered 405, recorded in the history, and the socket is closed.\<close>

lemma handle_client_405:
  assumes "utf8_decode (take 1024 data) = Some req" and "parse_request_line req = Some (m, p, v)"
    and "p \<noteq> ascii ''/favicon.ico''" and "m \<noteq> ascii ''GET''"
  shows "handle_client cfg fs True data h =
     \<lparr>hist = add_to_request_history h req resp_405, sent = [Send (utf8_encode resp_405), Close],
      closed = True, logged = None\<rparr>"
  using assms by (simp add: handler_defs)

text \<open>C11: A request for /favicon.ico, with any method, is answered 404 and is not recorded in the history.\<close>

lemma handle_client_favicon:
  assumes "utf8_decode (take 1024 data) = Some req" and "parse_request_line req = Some (m, p, v)"
    and "p = ascii ''/favicon.ico''"
  shows "handle_client cfg fs True data h =
     \<lparr>hist = h, sent = [Send (utf8_encode resp_favicon), Close], closed = True, logged = None\<rparr>"
  using assms by (simp add: handler_defs)

text \<open>C10: A request whose first line does not split into exactly three tokens is answered 400 and recorded, and the socket is closed.\<close>

lemma handle_client_400:
  assumes "utf8_decode (take 1024 data) = Some req" and "parse_request_line req = None"
  shows "handle_client cfg fs True data h =
     \<lparr>hist = add_to_request_history h req resp_400, sent = [Send (utf8_encode resp_400), Close],
      closed = True, logged = None\<rparr>"
  using assms by (simp add: handler_defs)

text \<open>C15: A request whose first 1024 bytes are not valid UTF-8 gets no response at all (not the 400 the specification asks for); the socket is only closed and nothing is recorded.\<close>

lemma handle_client_undecodable:
  assumes "utf8_decode (take 1024 data) = None"
  shows "handle_client cfg fs alive data h =
     \<lparr>hist = h, sent = [Close], closed = True, logged = Some UnicodeDecodeError\<rparr>"
  using assms by (simp add: handler_defs)

text \<open>C17: GET of a path that is neither /, /favicon.ico nor under /static/reports/ raises UnboundLocalError: no response is sent, nothing is recorded, and the socket is closed.\<close>

lemma handle_client_unmatched_get:
  assumes "utf8_decode (take 1024 data) = Some req" and "parse_request_line req = Some (ascii ''GET'', p, v)"
    and "p \<noteq> ascii ''/favicon.ico''" and "p \<noteq> ascii ''/''"
    and "\<not> startswith p (ascii ''/static/reports/'')"
  shows "handle_client cfg fs alive data h =
     \<lparr>hist = h, sent = [Close], closed = True, logged = Some UnboundLocalError\<rparr>"
  using assms by (simp add: handler_defs)

text \<open>C12: GET of a path under /static/reports/ naming a non-empty file sends the PDF header with the file's byte length, then the file's bytes, records 'PDF file sent', and closes the socket once.\<close>

lemma handle_client_pdf:
  assumes "utf8_decode (take 1024 data) = Some req" and "parse_request_line req = Some (ascii ''GET'', p, v)"
    and "p \<noteq> ascii ''/favicon.ico''" and "startswith p (ascii ''/static/reports/'')"
    and "serve_pdf cfg fs p = Inr (Some body)" and "body \<noteq> []"
  shows "handle_client cfg fs True data h =
     \<lparr>hist = add_to_request_history h req pdf_sent,
      sent = [Send (utf8_encode (pdf_header body)), Send body, Close], closed = True, logged = None\<rparr>"
proof -
  have "p \<noteq> ascii ''/''" using assms(4) by (auto simp: ascii_def)
  with assms show ?thesis by (simp add: handler_defs)
qed

text \<open>C14: GET of a missing report, and also of an existing but empty file, is answered 404 and recorded.\<close>

lemma handle_client_pdf_404:
  assumes "utf8_decode (take 1024 data) = Some req" and "parse_request_line req = Some (ascii ''GET'', p, v)"
    and "p \<noteq> ascii ''/favicon.ico''" and "startswith p (ascii ''/static/reports/'')"
    and "serve_pdf cfg fs p = Inr None \<or> serve_pdf cfg fs p = Inr (Some [])"
  shows "handle_client cfg fs True data h =
     \<lparr>hist = add_to_request_history h req resp_404, sent = [Send (utf8_encode resp_404), Close],
      closed = True, logged = None\<rparr>"
proof -
  have "p \<noteq> ascii ''/''" using assms(4) by (auto simp: ascii_def)
  with assms show ?thesis by (auto simp: handler_defs)
qed

text \<open>C13: GET / sends the index page built from the history as it was before the request; the exchange is recorded before the page is sent.\<close>

lemma handle_client_index:
  assumes "utf8_decode (take 1024 data) = Some req" and "parse_request_line req = Some (ascii ''GET'', ascii ''/'', v)"
    and "create_group_page cfg fs h = Inr body" and "list_all valid_cp body"
  shows "handle_client cfg fs True data h =
     \<lparr>hist = add_to_request_history h req (index_response body),
      sent = [Send (utf8_encode (index_response body)), Close], closed = True, logged = None\<rparr>"
proof -
  have "list_all valid_cp (index_response body)"
    using assms(4) by (simp add: index_response_def valid_cp_def)
  with assms show ?thesis by (simp add: handler_defs ascii_def)
qed

lemma count_close_append [simp]: "count_close (xs @ ys) = count_close xs + count_close ys"
  by (simp add: count_close_def)

lemma count_close_simps [simp]: "count_close [] = 0" "count_close [Send bs] = 0" "count_close [Close] = 1"
  by (simp_all add: count_close_def)

lemma close_state_raise [simp]: "result_state (Inl (e, s)) = s"
  by (simp add: result_state_def)

lemma close_state_sendall: "close_state s \<Longrightarrow> close_state (result_state (sendall a bs s))"
  by (auto simp: sendall_def result_state_def close_state_def count_close_def)

lemma close_state_send_text: "close_state s \<Longrightarrow> close_state (result_state (send_text a t s))"
  by (cases "py_encode t") (simp_all add: send_text_def close_state_sendall)

lemma close_state_record [simp]: "close_state (record_hist q r s) = close_state s"
  by (simp add: record_hist_def close_state_def)

lemma close_state_respond: "close_state s \<Longrightarrow> close_state (result_state (respond a q r s))"
  by (simp add: respond_def close_state_send_text)

lemma close_state_send_then_record:
  "close_state s \<Longrightarrow> close_state (result_state (send_then_record a q r s))"
  using close_state_send_text [of s a r]
  by (auto simp: send_then_record_def result_state_def split: sum.splits prod.splits)

lemma close_state_send_pdf: "close_state s \<Longrightarrow> close_state (result_state (send_pdf a q body s))"
  by (auto simp: send_pdf_def send_text_def sendall_def close_sock_def record_hist_def
      result_state_def close_state_def count_close_def split: option.splits)

lemma handle_request_close_state:
  "close_state s \<Longrightarrow> close_state (result_state (handle_request cfg fs alive data s))"
  unfolding handle_request_def
  by (auto split: option.splits prod.splits sum.splits
      intro: close_state_send_text close_state_respond close_state_send_then_record close_state_send_pdf)

lemma handle_client_closes_once: "count_close (sent (handle_client cfg fs alive data h)) = 1"
proof -
  let ?r = "handle_request cfg fs alive data (init_hstate h)"
  have cs: "close_state (result_state ?r)"
    by (rule handle_request_close_state) (simp add: init_hstate_def close_state_def count_close_def)
  let ?s1 = "case ?r of Inl (e, s) \<Rightarrow> s\<lparr>logged := Some e\<rparr> | Inr s \<Rightarrow> s"
  have "closed ?s1 = closed (result_state ?r)" "sent ?s1 = sent (result_state ?r)"
    by (simp_all add: result_state_def split: sum.splits prod.splits)
  with cs show ?thesis
    by (auto simp: handle_client_def Let_def close_state_def close_sock_def)
qed

lemma hist_sendall [simp]: "hist (result_state (sendall a bs s)) = hist s"
  by (simp add: sendall_def result_state_def)

lemma hist_send_text [simp]: "hist (result_state (send_text a t s)) = hist s"
  by (simp add: send_text_def split: option.splits)

lemma hist_respond [simp]:
  "hist (result_state (respond a q r s)) = add_to_request_history (hist s) q r"
  by (simp add: respond_def record_hist_def)

lemma hist_send_then_record:
  "hist (result_state (send_then_record a q r s)) \<in> {hist s, add_to_request_history (hist s) q r}"
  using hist_send_text [of a r s]
  by (auto simp: send_then_record_def result_state_def record_hist_def split: sum.splits)

lemma hist_send_pdf:
  "hist (result_state (send_pdf a q body s)) \<in> {hist s, add_to_request_history (hist s) q pdf_sent}"
  using hist_send_text [of a "pdf_header body" s]
  by (auto simp: send_pdf_def result_state_def record_hist_def close_sock_def sendall_def split: sum.splits)

lemma handle_request_records:
  "hist (result_state (handle_request cfg fs alive data s)) = hist s \<or>
   (\<exists>req r. utf8_decode (take 1024 data) = Some req \<and>
      (r \<in> {resp_400, resp_404, resp_405, pdf_sent} \<or>
       (\<exists>body. create_group_page cfg fs (hist s) = Inr body \<and> r = index_response body)) \<and>
      hist (result_state (handle_request cfg fs alive data s)) = add_to_request_history (hist s) req r)"
proof (cases "utf8_decode (take 1024 data)")
  case (Some req)
  show ?thesis
  proof (cases "parse_request_line req")
    case None
    then show ?thesis using Some hist_send_then_record [of alive req resp_400 s]
      by (auto simp: handle_request_def)
  next
    case (Some mpv)
    obtain m p v where mpv: "mpv = (m, p, v)" by (cases mpv) auto
    show ?thesis
      using \<open>utf8_decode (take 1024 data) = Some req\<close> Some mpv
        hist_send_pdf [of alive req _ s]
      by (auto simp: handle_request_def split: sum.splits option.splits)
  qed
qed (simp add: handle_request_def)

lemma hist_handle_client:
  "hist (handle_client cfg fs alive data h) = hist (result_state (handle_request cfg fs alive data (init_hstate h)))"
  by (auto simp: handle_client_def Let_def close_sock_def result_state_def split: sum.splits prod.splits)

lemma handle_client_hist_inv: "hist_inv h \<Longrightarrow> hist_inv (hist (handle_client cfg fs alive data h))"
  using handle_request_records [of cfg fs alive data "init_hstate h"]
  by (auto simp: hist_handle_client init_hstate_def intro: hist_inv_add)

lemma decode_ascii_request:
  assumes "\<forall>c \<in> set s. c < 128" and "length s \<le> 1024"
  shows "utf8_decode (take 1024 (utf8_encode s)) = Some s"
proof -
  have "length (utf8_encode s) = length s" using assms(1) length_utf8_encode_ascii by blast
  moreover have "list_all valid_cp s" using assms(1) by (auto simp: list_all_iff valid_cp_def)
  ultimately show ?thesis using assms(2) by (simp add: utf8_roundtrip)
qed

lemma parse_request_line_words:
  assumes line: "first_line req = m @ [32] @ p @ [32] @ v @ r"
    and ne: "m \<noteq> []" "p \<noteq> []" "v \<noteq> []"
    and words: "\<forall>c \<in> set (m @ p @ v). \<not> is_space c" and sp: "\<forall>c \<in> set r. is_space c"
  shows "parse_request_line req = Some (m, unquote p, v)"
proof -
  have "py_split (v @ r) = [v]"
    using py_split_append_spaces [OF sp, of v] py_split_token [of v "[]"] ne(3) words by simp
  then have "py_split (p @ [32] @ v @ r) = [p, v]"
    using py_split_token [of p "32 # v @ r"] py_split_space [of 32 "v @ r"] ne(2) words by simp
  then have "py_split (m @ [32] @ p @ [32] @ v @ r) = [m, p, v]"
    using py_split_token [of m "32 # p @ 32 # v @ r"] py_split_space [of 32 "p @ 32 # v @ r"] ne(1) words
    by simp
  then show ?thesis using line by (simp add: parse_request_line_def py_split_strip)
qed

text \<open>C18: The Content-Length of the index response is str(len(body)), the number of characters of the page, which is always smaller than the number of UTF-8 bytes sent for it.\<close>

lemma index_content_length:
  assumes "create_group_page cfg fs h = Inr body"
  shows "\<exists>hdr. index_response body = hdr @ ascii ''Content-Length: '' @ str_of_nat (length body) @ crlf @ crlf @ body
           \<and> length body < length (utf8_encode body)"
proof -
  have "1043 \<in> set body" using create_group_page_parts [OF assms] page_part1_not_ascii by auto
  then have "length (utf8_encode body) \<noteq> length body" using length_utf8_encode_ascii [of body] by auto
  then have "length body < length (utf8_encode body)" using length_utf8_encode_ge [of body] by simp
  moreover have "index_response body = (ascii ''HTTP/1.1 200 OK'' @ crlf @
      ascii ''Server: '' @ [1055, 1052, 1048, 1052] @ ascii ''-31 Web Server'' @ crlf @
      ascii ''Content-Type: text/html; charset=utf-8'' @ crlf) @
      ascii ''Content-Length: '' @ str_of_nat (length body) @ crlf @ crlf @ body"
    by (simp add: index_response_def)
  ultimately show ?thesis by blast
qed

text \<open>C32: When the peer has gone, a malformed request is not recorded: the 400 branch sends before it records, so the failed sendall skips the record, and the socket is closed.\<close>

lemma handle_client_400_dead:
  assumes "utf8_decode (take 1024 data) = Some req" and "parse_request_line req = None"
  shows "handle_client cfg fs False data h =
     \<lparr>hist = h, sent = [Close], closed = True, logged = Some ConnectionError\<rparr>"
  using assms by (simp add: handler_defs)

lemma handle_client_405_dead:
  assumes "utf8_decode (take 1024 data) = Some req" and "parse_request_line req = Some (m, p, v)"
    and "p \<noteq> ascii ''/favicon.ico''" and "m \<noteq> ascii ''GET''"
  shows "handle_client cfg fs False data h =
     \<lparr>hist = add_to_request_history h req resp_405, sent = [Close], closed = True,
      logged = Some ConnectionError\<rparr>"
  using assms by (simp add: handler_defs)

lemma lstrip_reports: "lstrip_char 47 (ascii ''/static/reports/'' @ r) = ascii ''static/reports/'' @ r"
  by (simp add: lstrip_char_def ascii_def)

lemma reports_url:
  "abs_path ds @ 47 # ascii ''static/reports/'' @ r = abs_path (ds @ [ascii ''static'', ascii ''reports'']) @ 47 # r"
  by (simp add: abs_path_def ascii_def)

lemma reports_file_path:
  assumes "base_dir cfg = abs_path ds" and "ds \<noteq> []" and "\<forall>x \<in> set (ds @ [n]). good_name x"
  shows "path_join (base_dir cfg) (lstrip_char 47 (ascii ''/static/reports/'' @ n)) =
         abs_path (ds @ [ascii ''static'', ascii ''reports'', n])"
proof -
  have ns: "\<not> startswith (ascii ''static/reports/'' @ n) [47]" by (simp add: ascii_def)
  have "path_join (base_dir cfg) (lstrip_char 47 (ascii ''/static/reports/'' @ n)) =
        abs_path ds @ 47 # ascii ''static/reports/'' @ n"
    using assms path_join_abs [OF _ _ ns] by (simp add: lstrip_reports)
  also have "\<dots> = abs_path (ds @ [ascii ''static'', ascii ''reports'', n])"
    using reports_url abs_path_snoc [of "ds @ [ascii ''static'', ascii ''reports'']" n] by simp
  finally show ?thesis .
qed

lemma good_reports_path: "\<forall>x \<in> set (ds @ [n]). good_name x \<Longrightarrow>
  \<forall>x \<in> set (ds @ [ascii ''static'', ascii ''reports'', n]). good_name x"
  by (auto simp: good_name_def ascii_def)

text \<open>C19: serve_pdf of /static/reports/<name> returns the bytes of the file <name> in the reports directory under the base directory.\<close>

lemma serve_pdf_file:
  assumes "base_dir cfg = abs_path ds" and "ds \<noteq> []" and "\<forall>x \<in> set (ds @ [n]). good_name x"
    and "lookup fs (ds @ [ascii ''static'', ascii ''reports'', n]) = Some (File bs)"
  shows "serve_pdf cfg fs (ascii ''/static/reports/'' @ n) = Inr (Some bs)"
  using os_read_file [OF _ good_reports_path [OF assms(3)] assms(4)] reports_file_path [OF assms(1-3)]
  by (simp add: serve_pdf_def)

text \<open>C20: serve_pdf does not confine requests to the reports directory: /static/reports/../../<name> returns a file <name> of the base directory.\<close>

lemma serve_pdf_traversal:
  assumes "base_dir cfg = abs_path ds" and "ds \<noteq> []" and "\<forall>x \<in> set (ds @ [n]). good_name x"
    and "lookup fs (ds @ [ascii ''static'', ascii ''reports'']) = Some (Dir es)"
    and "lookup fs (ds @ [n]) = Some (File bs)"
  shows "serve_pdf cfg fs (ascii ''/static/reports/../../'' @ n) = Inr (Some bs)"
proof -
  let ?p = "ds @ [ascii ''static'', ascii ''reports'', ascii ''..'', ascii ''..'', n]"
  have g: "\<forall>x \<in> set (ds @ [ascii ''static'', ascii ''reports'', n]). good_name x"
    using assms(3) by (auto simp: good_name_def ascii_def)
  have ns: "\<not> startswith (ascii ''static/reports/../../'' @ n) [47]" by (simp add: ascii_def)
  have l: "lstrip_char 47 (ascii ''/static/reports/../../'' @ n) = ascii ''static/reports/../../'' @ n"
    by (simp add: lstrip_char_def ascii_def)
  have "path_join (base_dir cfg) (lstrip_char 47 (ascii ''/static/reports/../../'' @ n)) =
        abs_path ds @ 47 # ascii ''static/reports/../../'' @ n"
    using assms(1-3) path_join_abs [OF _ _ ns] l by simp
  also have "\<dots> = abs_path ?p" by (simp add: abs_path_def ascii_def)
  finally have "path_join (base_dir cfg) (lstrip_char 47 (ascii ''/static/reports/../../'' @ n)) = abs_path ?p" .
  moreover have "resolve fs (abs_path ?p) = Inr (File bs)"
    using resolve_dotdot [OF g assms(2,4,5)] by simp
  ultimately show ?thesis by (simp add: serve_pdf_def os_read_def)
qed

text \<open>The Content-Length a client reads from the PDF header is the number of bytes of the file sent after it.\<close>

lemma pdf_content_length:
  assumes "pdf_header body = ascii ''HTTP/1.1 200 OK'' @ crlf @ ascii ''Content-Type: application/pdf'' @ crlf @
             ascii ''Content-Length: '' @ d @ crlf @ crlf"
  shows "nat_of_digits d = length body"
proof -
  have "d = str_of_nat (length body)" using assms by (simp add: pdf_header_def)
  then show ?thesis by (simp add: str_of_nat_roundtrip)
qed

text \<open>C16: A request whose 1024th byte is the first byte of a multi-byte UTF-8 character is cut inside that character by recv(1024): decoding fails and the client gets no response.\<close>

lemma handle_client_cut_char:
  assumes "length pre = 1023" and "\<forall>x \<in> set pre. x < 128" and "128 \<le> c" and "valid_cp c"
  shows "handle_client cfg fs alive (utf8_encode (pre @ c # rest)) h =
     \<lparr>hist = h, sent = [Close], closed = True, logged = Some UnicodeDecodeError\<rparr>"
proof -
  obtain b r where br: "utf8_encode_char c = b # r" "194 \<le> unat b" "unat b \<le> 244"
    using utf8_encode_char_lead [OF assms(3,4)] by blast
  have len: "length (utf8_encode pre) = 1023"
    using length_utf8_encode_ascii [of pre] assms(1,2) by simp
  have "take 1024 (utf8_encode (pre @ c # rest)) = utf8_encode pre @ [b]"
    using len br(1) by (simp add: utf8_encode_def)
  moreover have "utf8_decode (utf8_encode pre @ [b]) = None"
    using utf8_decode_cut [OF utf8_encode_ascii_bytes [OF assms(2)] br(2,3)] .
  ultimately show ?thesis by (simp add: handler_defs)
qed

end
