(* ===== verification/Validity.thy ===== *)
theory Validity
  imports Handler
begin

text \<open>
  Which strings the server can encode. \<open>str.encode('utf-8')\<close> raises on a lone
  surrogate (\<open>py_encode\<close>), and such code points reach the server's strings only
  from the file system: \<open>os.listdir\<close> returns names that are not UTF-8 with lone
  surrogates (\<open>surrogateescape\<close>), while every decoded request is valid
  (\<open>utf8_decode_valid\<close>). The type invariant \<open>hist_valid\<close> (every recorded string
  is valid Unicode) holds whenever the report names are valid, and then no handler
  raises \<open>UnicodeEncodeError\<close>. Otherwise one bad name makes \<open>GET /\<close> fail after
  recording an entry that holds the bad name, and that entry makes every later index
  page fail as long as it stays in the history. The handler here has no prints;
  theory \<open>Console\<close> shows that it is what the server does whenever no print raises
  (a standard output that accepts these strings), and what happens otherwise.
\<close>

definition names_valid :: "node \<Rightarrow> bool" where
  "names_valid fs \<longleftrightarrow> all_names (list_all valid_cp) fs"

definition entry_valid :: "entry \<Rightarrow> bool" where
  "entry_valid e \<longleftrightarrow> list_all valid_cp (request e) \<and> list_all valid_cp (response e)"

definition hist_valid :: "entry list \<Rightarrow> bool" where
  "hist_valid h \<longleftrightarrow> list_all entry_valid h"

text \<open>Every recorded string is made of characters of class \<open>P\<close>.\<close>

definition hist_chars :: "(cp \<Rightarrow> bool) \<Rightarrow> entry list \<Rightarrow> bool" where
  "hist_chars P h \<longleftrightarrow> (\<forall>e \<in> set h. list_all P (request e) \<and> list_all P (response e))"

definition enc_fail :: "(exc \<times> hstate) + hstate \<Rightarrow> bool" where
  "enc_fail r \<longleftrightarrow> (case r of Inl (e, s) \<Rightarrow> e = UnicodeEncodeError | Inr s \<Rightarrow> False)"

subsection \<open>Lemmas\<close>

lemma esc_char_chars: "c \<in> set (esc_char x) \<Longrightarrow> c = x \<or> c < 128"
  by (auto simp: esc_char_def ascii_def split: if_splits)

text \<open>The page's characters are the template's, the names' and the history's, for any
  class \<open>P\<close> of characters that holds every valid one (what a given encoding accepts).\<close>

lemma html_escape_chars:
  "list_all P s \<Longrightarrow> \<forall>c. valid_cp c \<longrightarrow> P c \<Longrightarrow> list_all P (html_escape s)"
  by (auto simp: html_escape_one_pass list_all_iff valid_cp_def dest!: esc_char_chars)

lemma html_escape_valid: "list_all valid_cp s \<Longrightarrow> list_all valid_cp (html_escape s)"
  by (simp add: html_escape_chars)

lemma html_escape_keeps_invalid: "c \<in> set s \<Longrightarrow> \<not> valid_cp c \<Longrightarrow> c \<in> set (html_escape s)"
  by (auto simp: html_escape_one_pass esc_char_def valid_cp_def ascii_def)

lemma template_valid [simp]:
  "list_all valid_cp page_part1" "list_all valid_cp page_part2" "list_all valid_cp page_part3"
  "list_all valid_cp entry_part1" "list_all valid_cp entry_part2" "list_all valid_cp entry_part3"
  by (simp_all add: page_part1_def page_part2_def page_part3_def entry_part1_def entry_part2_def
      entry_part3_def valid_cp_def ascii_def)

lemma entry_html_valid: "entry_valid e \<Longrightarrow> list_all valid_cp (entry_html e)"
  by (simp add: entry_html_def entry_valid_def html_escape_valid)

lemma list_reports_names:
  "list_reports cfg fs = Inr rs \<Longrightarrow> all_names P fs \<Longrightarrow> \<forall>r \<in> set rs. P r"
  by (auto simp: list_reports_def split: sum.splits if_splits dest: os_listdir_names [where P = P])

lemma template_chars:
  "\<forall>c. valid_cp c \<longrightarrow> P c \<Longrightarrow> list_all P page_part1 \<and> list_all P page_part2 \<and> list_all P page_part3"
  using template_valid(1-3) by (simp add: list_all_iff)

lemma report_item_chars: "list_all P r \<Longrightarrow> \<forall>c. valid_cp c \<longrightarrow> P c \<Longrightarrow> list_all P (report_item r)"
  by (simp add: report_item_def valid_cp_def ascii_def list_all_iff)

lemma entry_html_chars:
  "list_all P (request e) \<Longrightarrow> list_all P (response e) \<Longrightarrow> \<forall>c. valid_cp c \<longrightarrow> P c \<Longrightarrow>
   list_all P (entry_html e)"
  using template_valid(4-6) html_escape_chars [of P "request e"] html_escape_chars [of P "response e"]
  by (auto simp: entry_html_def list_all_iff)

lemma create_group_page_chars:
  assumes "create_group_page cfg fs h = Inr body" and P: "\<forall>c. valid_cp c \<longrightarrow> P c"
    and "all_names (list_all P) fs" and "\<forall>e \<in> set h. list_all P (request e) \<and> list_all P (response e)"
  shows "list_all P body"
proof -
  obtain rs where rs: "list_reports cfg fs = Inr rs" and body:
    "body = page_part1 @ concat (map report_item rs) @ page_part2 @ concat (map entry_html (rev h)) @ page_part3"
    using create_group_page_parts [OF assms(1)] by blast
  have "\<forall>r \<in> set rs. list_all P (report_item r)"
    using list_reports_names [OF rs assms(3)] report_item_chars P by blast
  moreover have "\<forall>e \<in> set h. list_all P (entry_html e)"
    using assms(4) entry_html_chars P by blast
  ultimately show ?thesis using template_chars [OF P] by (auto simp: body list_all_iff)
qed

lemma create_group_page_valid:
  assumes "create_group_page cfg fs h = Inr body" and "hist_valid h" and "names_valid fs"
  shows "list_all valid_cp body"
  using create_group_page_chars [OF assms(1), of valid_cp] assms(2,3)
  by (simp add: names_valid_def hist_valid_def entry_valid_def list_all_iff)

lemma index_response_valid: "list_all valid_cp body \<Longrightarrow> list_all valid_cp (index_response body)"
  by (simp add: index_response_def valid_cp_def)

lemma pdf_sent_valid [simp]: "list_all valid_cp pdf_sent"
  by (simp add: pdf_sent_def)

lemma decoded_valid: "utf8_decode (take 1024 data) = Some req \<Longrightarrow> list_all valid_cp req"
  by (rule utf8_decode_valid)

lemma hist_valid_chars: "hist_valid h \<longleftrightarrow> hist_chars valid_cp h"
  by (simp add: hist_valid_def hist_chars_def entry_valid_def list_all_iff)

lemma hist_chars_Nil [simp]: "hist_chars P []"
  by (simp add: hist_chars_def)

lemma hist_chars_add:
  "hist_chars P h \<Longrightarrow> list_all P q \<Longrightarrow> list_all P r \<Longrightarrow> hist_chars P (add_to_request_history h q r)"
  by (cases h) (auto simp: hist_chars_def add_to_request_history_def Let_def)

lemma valid_chars: "list_all valid_cp s \<Longrightarrow> \<forall>c. valid_cp c \<longrightarrow> P c \<Longrightarrow> list_all P s"
  by (simp add: list_all_iff)

lemma index_response_chars:
  "list_all P body \<Longrightarrow> \<forall>c. valid_cp c \<longrightarrow> P c \<Longrightarrow> list_all P (index_response body)"
  by (simp add: index_response_def valid_chars) (simp add: valid_cp_def)

text \<open>A handler records the decoded request and a response made of the template, the
  names and the history, so any class of characters that holds every valid one and
  the names is kept by the history.\<close>

lemma hist_chars_handle_client:
  assumes "hist_chars P h" and "all_names (list_all P) fs" and P: "\<forall>c. valid_cp c \<longrightarrow> P c"
  shows "hist_chars P (hist (handle_client cfg fs alive data h))"
proof -
  let ?r = "handle_request cfg fs alive data (init_hstate h)"
  have "hist (result_state ?r) = h \<or>
    (\<exists>req r. utf8_decode (take 1024 data) = Some req \<and>
      (r \<in> {resp_400, resp_404, resp_405, pdf_sent} \<or>
       (\<exists>body. create_group_page cfg fs h = Inr body \<and> r = index_response body)) \<and>
      hist (result_state ?r) = add_to_request_history h req r)"
    using handle_request_records [of cfg fs alive data "init_hstate h"] by (simp add: init_hstate_def)
  then show ?thesis
  proof
    assume "hist (result_state ?r) = h"
    then show ?thesis using assms(1) by (simp add: hist_handle_client)
  next
    assume "\<exists>req r. utf8_decode (take 1024 data) = Some req \<and>
      (r \<in> {resp_400, resp_404, resp_405, pdf_sent} \<or>
       (\<exists>body. create_group_page cfg fs h = Inr body \<and> r = index_response body)) \<and>
      hist (result_state ?r) = add_to_request_history h req r"
    then obtain req r where d: "utf8_decode (take 1024 data) = Some req"
      and rv: "r \<in> {resp_400, resp_404, resp_405, pdf_sent} \<or>
               (\<exists>body. create_group_page cfg fs h = Inr body \<and> r = index_response body)"
      and e: "hist (result_state ?r) = add_to_request_history h req r" by blast
    have "list_all P req" using decoded_valid [OF d] P by (rule valid_chars)
    moreover have "list_all P r"
    proof (cases "r \<in> {resp_400, resp_404, resp_405, pdf_sent}")
      case True
      then show ?thesis using P by (auto intro: valid_chars)
    next
      case False
      then obtain body where "create_group_page cfg fs h = Inr body" and r: "r = index_response body"
        using rv by blast
      then have "list_all P body"
        using create_group_page_chars assms(1,2) P by (simp add: hist_chars_def)
      then show ?thesis unfolding r using P by (rule index_response_chars)
    qed
    ultimately show ?thesis using e assms(1) by (simp add: hist_handle_client hist_chars_add)
  qed
qed

text \<open>C21: When the report names are valid Unicode, a handler keeps every string of the history valid Unicode, whatever bytes the client sent.\<close>

lemma hist_valid_handle_client:
  assumes "hist_valid h" and "names_valid fs"
  shows "hist_valid (hist (handle_client cfg fs alive data h))"
  using hist_chars_handle_client [of valid_cp h fs] assms
  by (simp add: hist_valid_chars names_valid_def)

lemma walk_errors: "walk root cur cs = Inl e \<Longrightarrow> e = FileNotFoundError \<or> e = NotADirectoryError"
  by (induction root cur cs rule: walk.induct) (auto split: option.splits node.splits if_splits)

lemma resolve_not_enc: "resolve root p = Inl e \<Longrightarrow> e \<noteq> UnicodeEncodeError"
  by (auto simp: resolve_def split: if_splits sum.splits option.splits dest: walk_errors)

lemma serve_pdf_not_enc: "serve_pdf cfg fs p = Inl e \<Longrightarrow> e \<noteq> UnicodeEncodeError"
  by (auto simp: serve_pdf_def os_read_def split: sum.splits node.splits if_splits dest: resolve_not_enc)

lemma create_group_page_not_enc: "create_group_page cfg fs h = Inl e \<Longrightarrow> e \<noteq> UnicodeEncodeError"
  by (auto simp: create_group_page_def list_reports_def os_listdir_def
      split: sum.splits node.splits if_splits dest: resolve_not_enc)

lemma enc_fail_send_text: "list_all valid_cp t \<Longrightarrow> \<not> enc_fail (send_text a t s)"
  by (simp add: enc_fail_def send_text_def py_encode_valid sendall_def)

lemma enc_fail_steps:
  "list_all valid_cp r \<Longrightarrow> \<not> enc_fail (respond a q r s)"
  "list_all valid_cp r \<Longrightarrow> \<not> enc_fail (send_then_record a q r s)"
  "\<not> enc_fail (send_pdf a q body s)"
  by (auto simp: enc_fail_def respond_def send_then_record_def send_pdf_def send_text_def
      py_encode_valid sendall_def split: sum.splits)

lemma enc_fail_Inl [simp]: "enc_fail (Inl (e, s)) \<longleftrightarrow> e = UnicodeEncodeError"
  by (simp add: enc_fail_def)

lemma handle_request_no_enc:
  assumes "hist_valid (hist s)" and "names_valid fs"
  shows "\<not> enc_fail (handle_request cfg fs alive data s)"
proof (cases "utf8_decode (take 1024 data)")
  case None
  then show ?thesis by (simp add: handle_request_def)
next
  case (Some req)
  show ?thesis
  proof (cases "parse_request_line req")
    case None
    with Some show ?thesis by (simp add: handle_request_def enc_fail_steps)
  next
    case (Some mpv)
    obtain m p v where mpv: "mpv = (m, p, v)" by (cases mpv) auto
    have page: "\<not> enc_fail (respond alive req (index_response body) s)"
      if "create_group_page cfg fs (hist s) = Inr body" for body
      by (rule enc_fail_steps(1), rule index_response_valid, rule create_group_page_valid [OF that assms])
    show ?thesis
      using \<open>utf8_decode (take 1024 data) = Some req\<close> Some mpv page
      by (auto simp: handle_request_def enc_fail_steps enc_fail_send_text split: sum.splits option.splits
          dest: create_group_page_not_enc serve_pdf_not_enc)
  qed
qed

lemma html_escape_valid_iff: "list_all valid_cp (html_escape s) \<longleftrightarrow> list_all valid_cp s"
proof -
  have "list_all valid_cp (esc_char c) \<longleftrightarrow> valid_cp c" for c
    by (auto simp: esc_char_def valid_cp_def ascii_def)
  then show ?thesis by (induction s) (simp_all add: html_escape_one_pass)
qed

lemma entry_html_valid_iff: "list_all valid_cp (entry_html e) \<longleftrightarrow> entry_valid e"
  by (simp add: entry_html_def entry_valid_def html_escape_valid_iff)

lemma report_item_valid_iff: "list_all valid_cp (report_item r) \<longleftrightarrow> list_all valid_cp r"
  by (auto simp: report_item_def valid_cp_def ascii_def)

text \<open>The index page can be encoded exactly when every listed report name and every recorded string is valid Unicode.\<close>

lemma page_valid_iff:
  assumes "create_group_page cfg fs h = Inr body" and "list_reports cfg fs = Inr rs"
  shows "list_all valid_cp body \<longleftrightarrow> (\<forall>r \<in> set rs. list_all valid_cp r) \<and> hist_valid h"
proof -
  have body: "body = page_part1 @ concat (map report_item rs) @ page_part2 @ concat (map entry_html (rev h)) @ page_part3"
    using create_group_page_parts [OF assms(1)] assms(2) by auto
  have "list_all valid_cp (concat (map report_item rs)) \<longleftrightarrow> (\<forall>r \<in> set rs. list_all valid_cp r)"
    by (induction rs) (simp_all add: report_item_valid_iff)
  moreover have "list_all valid_cp (concat (map entry_html (rev h))) \<longleftrightarrow> hist_valid h"
    by (induction h) (auto simp: hist_valid_def entry_html_valid_iff)
  ultimately show ?thesis by (simp add: body)
qed

lemma handle_request_logged:
  "handle_request cfg fs alive data s = Inr s' \<Longrightarrow> logged s' = logged s"
  by (auto simp: handle_request_def respond_def send_then_record_def send_pdf_def send_text_def sendall_def
      record_hist_def close_sock_def split: option.splits prod.splits sum.splits if_splits)

lemma handle_client_no_enc:
  assumes "hist_valid h" and "names_valid fs"
  shows "logged (handle_client cfg fs alive data h) \<noteq> Some UnicodeEncodeError"
  using handle_request_no_enc [of "init_hstate h" fs cfg alive data] assms
    handle_request_logged [of cfg fs alive data "init_hstate h"]
  by (auto simp: handle_client_def Let_def close_sock_def init_hstate_def enc_fail_def split: sum.splits prod.splits)

text \<open>C23: If the index page holds a lone surrogate (a report name that is not UTF-8), GET / records the page as the response, then fails to encode it: no response is sent and the bad entry stays in the history.\<close>

lemma index_encode_failure:
  assumes "utf8_decode (take 1024 data) = Some req" and "parse_request_line req = Some (ascii ''GET'', ascii ''/'', v)"
    and "create_group_page cfg fs h = Inr body" and "\<not> list_all valid_cp body"
  shows "handle_client cfg fs alive data h =
     \<lparr>hist = add_to_request_history h req (index_response body), sent = [Close], closed = True,
      logged = Some UnicodeEncodeError\<rparr>"
proof -
  have "\<not> list_all valid_cp (index_response body)" using assms(4) by (simp add: index_response_def)
  then have "py_encode (index_response body) = None" by (simp add: py_encode_def)
  with assms show ?thesis by (simp add: handler_defs ascii_def)
qed

end
