(* ===== verification/Server.thy ===== *)
theory Server
  imports Validity
begin

text \<open>
  The listener of \<open>HTTPServer\<close> (src/server.py): \<open>__init__\<close> (lines 9-14),
  \<open>create_server_socket\<close> (lines 16-34), \<open>start\<close> (lines 259-283) and the
  module's main block (lines 287-290). The accept loop never ends by itself, so it
  is driven by a finite list of what \<open>accept()\<close> returns: a connection (whose peer
  stays or goes, and the bytes it sent), a \<open>KeyboardInterrupt\<close>, or an exception.
  A list that runs out leaves the loop running. Each accepted connection is handled
  by \<open>handle_client\<close> of theory \<open>Handler\<close> on the history the previous handlers
  left: the threads are taken to run one after another (one of the schedules the
  operating system may choose); theory \<open>Race\<close> looks at the other schedules of
  the only shared state, the history.
\<close>

datatype arrival = Conn bool bytes | Interrupt | AcceptError exc

datatype outcome = Running | Stopped | Crashed exc | Exited nat

record server =
  request_history :: "entry list"
  listening :: bool
  listener_closes :: nat
  handled :: "hstate list"
  status :: outcome

text \<open>\<open>__init__\<close>: an empty history and no socket yet.\<close>

definition init_server :: "entry list \<Rightarrow> server" where
  "init_server h =
     \<lparr>request_history = h, listening = False, listener_closes = 0, handled = [], status = Running\<rparr>"

text \<open>\<open>create_server_socket\<close>: \<open>socket\<close>, \<open>setsockopt\<close>, \<open>bind\<close> and \<open>listen\<close>
  succeed together or one raises; the \<open>except\<close> prints and calls \<open>exit(1)\<close>, whose
  \<open>SystemExit\<close> leaves \<open>start\<close> before its \<open>try\<close>, so the \<open>finally\<close> does not run.\<close>

definition create_server_socket :: "bool \<Rightarrow> server \<Rightarrow> server" where
  "create_server_socket bind_ok sv =
     (if bind_ok then sv\<lparr>listening := True\<rparr> else sv\<lparr>status := Exited 1\<rparr>)"

text \<open>One turn of \<open>while True\<close>: \<open>accept()\<close>, then the handler of the connection.\<close>

fun accept_loop :: "config \<Rightarrow> node \<Rightarrow> arrival list \<Rightarrow> server \<Rightarrow> server" where
  "accept_loop cfg fs [] sv = sv"
| "accept_loop cfg fs (Conn alive data # as) sv =
     (let c = handle_client cfg fs alive data (request_history sv)
      in accept_loop cfg fs as (sv\<lparr>request_history := hist c, handled := handled sv @ [c]\<rparr>))"
| "accept_loop cfg fs (Interrupt # as) sv = sv\<lparr>status := Stopped\<rparr>"
| "accept_loop cfg fs (AcceptError e # as) sv = sv\<lparr>status := Crashed e\<rparr>"

text \<open>The \<open>finally\<close> of \<open>start\<close>: \<open>if self.server_socket: close()\<close>, on every
  exit of the loop.\<close>

definition close_listener :: "server \<Rightarrow> server" where
  "close_listener sv =
     (if status sv = Running then sv
      else if listening sv then sv\<lparr>listening := False, listener_closes := Suc (listener_closes sv)\<rparr>
      else sv)"

definition start :: "config \<Rightarrow> node \<Rightarrow> bool \<Rightarrow> arrival list \<Rightarrow> server \<Rightarrow> server" where
  "start cfg fs bind_ok as sv =
     (let sv1 = create_server_socket bind_ok sv
      in if status sv1 \<noteq> Running then sv1 else close_listener (accept_loop cfg fs as sv1))"

text \<open>The main block: \<open>server.list_reports()\<close> (an error other than
  \<open>FileNotFoundError\<close> ends the process), then \<open>start()\<close>.\<close>

definition main :: "config \<Rightarrow> node \<Rightarrow> bool \<Rightarrow> arrival list \<Rightarrow> server" where
  "main cfg fs bind_ok as =
     (case list_reports cfg fs of
        Inl e \<Rightarrow> (init_server [])\<lparr>status := Crashed e\<rparr>
      | Inr _ \<Rightarrow> start cfg fs bind_ok as (init_server []))"

definition default_config :: "ustr \<Rightarrow> config" where
  "default_config d = \<lparr>host = ascii ''0.0.0.0'', port = 3000, base_dir = d\<rparr>"

text \<open>The connections of an arrival list up to the loop's end.\<close>

fun served :: "arrival list \<Rightarrow> (bool \<times> bytes) list" where
  "served [] = []"
| "served (Conn a d # as) = (a, d) # served as"
| "served (_ # as) = []"

text \<open>A connection whose request line names \<open>/favicon.ico\<close>.\<close>

definition favicon_request :: "bytes \<Rightarrow> bool" where
  "favicon_request data \<longleftrightarrow>
     (case utf8_decode (take 1024 data) of
        None \<Rightarrow> False
      | Some req \<Rightarrow> (case parse_request_line req of None \<Rightarrow> False | Some (m, p, v) \<Rightarrow> p = ascii ''/favicon.ico''))"

fun favicon_arrival :: "arrival \<Rightarrow> bool" where
  "favicon_arrival (Conn a d) = favicon_request d"
| "favicon_arrival _ = False"

subsection \<open>Lemmas\<close>

lemma accept_loop_status:
  "status sv = Running \<Longrightarrow>
   status (accept_loop cfg fs as sv) = Running \<or> status (accept_loop cfg fs as sv) = Stopped \<or>
   (\<exists>e. status (accept_loop cfg fs as sv) = Crashed e)"
  by (induction cfg fs as sv rule: accept_loop.induct) (simp_all add: Let_def)

lemma accept_loop_listening [simp]: "listening (accept_loop cfg fs as sv) = listening sv"
  by (induction cfg fs as sv rule: accept_loop.induct) (simp_all add: Let_def)

lemma accept_loop_closes [simp]: "listener_closes (accept_loop cfg fs as sv) = listener_closes sv"
  by (induction cfg fs as sv rule: accept_loop.induct) (simp_all add: Let_def)

lemma accept_loop_running:
  "status sv = Running \<Longrightarrow>
   status (accept_loop cfg fs as sv) = Running \<longleftrightarrow> (\<forall>x \<in> set as. \<exists>a d. x = Conn a d)"
  by (induction cfg fs as sv rule: accept_loop.induct) (simp_all add: Let_def)

lemma handle_client_favicon_hist:
  "favicon_request data \<Longrightarrow> hist (handle_client cfg fs alive data h) = h"
proof -
  assume f: "favicon_request data"
  then obtain req m v where "utf8_decode (take 1024 data) = Some req"
    "parse_request_line req = Some (m, ascii ''/favicon.ico'', v)"
    by (auto simp: favicon_request_def split: option.splits)
  then show ?thesis
    by (simp add: handle_client_def handle_request_def init_hstate_def send_text_def sendall_def close_sock_def split: sum.splits)
qed

lemma accept_loop_hist_only:
  "request_history sv = request_history sv' \<Longrightarrow>
   request_history (accept_loop cfg fs as sv) = request_history (accept_loop cfg fs as sv')"
proof (induction cfg fs as sv arbitrary: sv' rule: accept_loop.induct)
  case (2 cfg fs alive data as sv)
  let ?c = "handle_client cfg fs alive data (request_history sv)"
  have "request_history (sv\<lparr>request_history := hist ?c, handled := handled sv @ [?c]\<rparr>) =
        request_history (sv'\<lparr>request_history := hist ?c, handled := handled sv' @ [?c]\<rparr>)"
    by simp
  from "2.IH" [OF refl this] "2.prems" show ?case by (simp add: Let_def)
qed simp_all

text \<open>C5: Requests for /favicon.ico never change the history: the history after any run equals the history after the same run with every favicon connection removed.\<close>

lemma accept_loop_favicon:
  "request_history (accept_loop cfg fs as sv) =
   request_history (accept_loop cfg fs (filter (\<lambda>x. \<not> favicon_arrival x) as) sv)"
proof (induction cfg fs as sv rule: accept_loop.induct)
  case (2 cfg fs alive data as sv)
  then show ?case
  proof (cases "favicon_request data")
    case True
    let ?c = "handle_client cfg fs alive data (request_history sv)"
    let ?sv1 = "sv\<lparr>request_history := hist ?c, handled := handled sv @ [?c]\<rparr>"
    let ?P = "\<lambda>x. \<not> favicon_arrival x"
    have e1: "request_history ?sv1 = request_history sv"
      using handle_client_favicon_hist [OF True] by simp
    have "request_history (accept_loop cfg fs as ?sv1) = request_history (accept_loop cfg fs (filter ?P as) ?sv1)"
      by (rule "2.IH" [OF refl])
    also have "\<dots> = request_history (accept_loop cfg fs (filter ?P as) sv)"
      by (rule accept_loop_hist_only [OF e1])
    finally show ?thesis using True by (simp add: Let_def)
  qed (simp add: Let_def)
qed simp_all

lemma accept_loop_hist_inv:
  "hist_inv (request_history sv) \<Longrightarrow> hist_inv (request_history (accept_loop cfg fs as sv))"
  by (induction cfg fs as sv rule: accept_loop.induct) (simp_all add: Let_def handle_client_hist_inv)

lemma accept_loop_handled_closed:
  "\<forall>c \<in> set (handled sv). count_close (sent c) = 1 \<Longrightarrow>
   \<forall>c \<in> set (handled (accept_loop cfg fs as sv)). count_close (sent c) = 1"
  by (induction cfg fs as sv rule: accept_loop.induct) (simp_all add: Let_def handle_client_closes_once)

lemma accept_loop_handled_length:
  "length (handled (accept_loop cfg fs as sv)) = length (handled sv) + length (served as)"
  by (induction cfg fs as sv rule: accept_loop.induct) (simp_all add: Let_def)

lemma hist_handle_client_405:
  assumes "utf8_decode (take 1024 data) = Some req" and "parse_request_line req = Some (m, p, v)"
    and "p \<noteq> ascii ''/favicon.ico''" and "m \<noteq> ascii ''GET''"
  shows "hist (handle_client cfg fs alive data h) = add_to_request_history h req resp_405"
  using assms by (simp add: handler_defs split: sum.splits)

definition non_get :: "bytes \<times> ustr \<Rightarrow> bool" where
  "non_get x \<longleftrightarrow>
     utf8_decode (take 1024 (fst x)) = Some (snd x) \<and>
     (\<exists>m p v. parse_request_line (snd x) = Some (m, p, v) \<and> p \<noteq> ascii ''/favicon.ico'' \<and> m \<noteq> ascii ''GET'')"

lemma accept_loop_non_get:
  "\<forall>x \<in> set xs. non_get x \<Longrightarrow>
   request_history (accept_loop cfg fs (map (\<lambda>x. Conn a (fst x)) xs) sv) =
   record_all (request_history sv) (map (\<lambda>x. (snd x, resp_405)) xs)"
proof (induction xs arbitrary: sv)
  case (Cons x xs)
  then obtain m p v where "utf8_decode (take 1024 (fst x)) = Some (snd x)"
    "parse_request_line (snd x) = Some (m, p, v)" "p \<noteq> ascii ''/favicon.ico''" "m \<noteq> ascii ''GET''"
    by (auto simp: non_get_def)
  from hist_handle_client_405 [OF this] Cons show ?case by (simp add: Let_def)
qed simp

text \<open>C36: The listening socket stays open while the accept loop runs and is closed exactly once when the loop ends by interrupt or exception.\<close>

lemma start_listener:
  assumes "bind_ok" and "status sv = Running" and "\<not> listening sv" and "listener_closes sv = 0"
  shows "(status (start cfg fs bind_ok as sv) = Running \<longrightarrow>
           listening (start cfg fs bind_ok as sv) \<and> listener_closes (start cfg fs bind_ok as sv) = 0) \<and>
         (status (start cfg fs bind_ok as sv) \<noteq> Running \<longrightarrow>
           \<not> listening (start cfg fs bind_ok as sv) \<and> listener_closes (start cfg fs bind_ok as sv) = 1)"
  using assms by (simp add: start_def create_server_socket_def close_listener_def Let_def)

text \<open>If the server socket cannot be created or bound, the process exits with status 1 before accepting any connection.\<close>

lemma main_bind_failure:
  "list_reports cfg fs = Inr rs \<Longrightarrow>
   main cfg fs False as = (init_server [])\<lparr>status := Exited 1\<rparr>"
  by (simp add: main_def start_def create_server_socket_def init_server_def)

text \<open>With the handlers run one after another (the schedule of \<open>accept_loop\<close>; theory \<open>Race\<close> has the others), a run of N non-GET requests leaves the last 50 of the old history followed by one entry per request, in arrival order.\<close>

lemma server_history_fifo:
  assumes "hist_inv (request_history sv)" and "\<forall>x \<in> set xs. non_get x"
  shows "request_history (accept_loop cfg fs (map (\<lambda>x. Conn a (fst x)) xs) sv) =
         last_n history_cap (request_history sv @ map (\<lambda>x. \<lparr>request = snd x, response = resp_405\<rparr>) xs)"
  using accept_loop_non_get [OF assms(2)] record_all_last_n [OF assms(1)]
  by (simp add: comp_def mk_entry_def)

text \<open>C1: Every connection the server accepts is closed exactly once, whatever its handler does: success, early return, exception, or a peer that has gone.\<close>

lemma server_connections_closed:
  "\<forall>c \<in> set (handled (start cfg fs bind_ok as (init_server h))). count_close (sent c) = 1"
proof -
  have "\<forall>c \<in> set (handled (accept_loop cfg fs as (create_server_socket bind_ok (init_server h)))).
          count_close (sent c) = 1"
    by (rule accept_loop_handled_closed) (simp add: create_server_socket_def init_server_def)
  then show ?thesis
    by (simp add: start_def Let_def close_listener_def create_server_socket_def init_server_def)
qed

text \<open>With the handlers run one after another, a history of at most 50 entries stays within 50 after any sequence of connections; racing handlers can exceed it (\<open>Race.race_exceeds_cap\<close>).\<close>

lemma server_history_bounded:
  "hist_inv h \<Longrightarrow> hist_inv (request_history (start cfg fs bind_ok as (init_server h)))"
  using accept_loop_hist_inv [of "create_server_socket bind_ok (init_server h)" cfg fs as]
  by (cases bind_ok) (simp_all add: start_def Let_def close_listener_def create_server_socket_def init_server_def)

lemma accept_loop_valid:
  assumes "hist_valid (request_history sv)" and "names_valid fs"
    and "\<forall>c \<in> set (handled sv). logged c \<noteq> Some UnicodeEncodeError"
  shows "hist_valid (request_history (accept_loop cfg fs as sv)) \<and>
         (\<forall>c \<in> set (handled (accept_loop cfg fs as sv)). logged c \<noteq> Some UnicodeEncodeError)"
  using assms
proof (induction cfg fs as sv rule: accept_loop.induct)
  case (2 cfg fs alive data as sv)
  then show ?case
    using hist_chars_handle_client [of valid_cp "request_history sv" fs cfg alive data]
      handle_client_no_enc [OF "2.prems"(1,2)]
    by (simp add: Let_def hist_valid_chars names_valid_def)
qed simp_all

text \<open>C6: When every file name is valid Unicode, no connection of a server run fails with UnicodeEncodeError: the handlers and the history they share only ever hold encodable text.\<close>

lemma server_no_encode_error:
  assumes "names_valid fs" and "hist_valid h"
  shows "\<forall>c \<in> set (handled (start cfg fs bind_ok as (init_server h))). logged c \<noteq> Some UnicodeEncodeError"
proof -
  have "\<forall>c \<in> set (handled (accept_loop cfg fs as (create_server_socket bind_ok (init_server h)))).
          logged c \<noteq> Some UnicodeEncodeError"
    using accept_loop_valid [of "create_server_socket bind_ok (init_server h)" fs cfg as] assms
    by (simp add: create_server_socket_def init_server_def)
  then show ?thesis
    by (simp add: start_def Let_def close_listener_def create_server_socket_def init_server_def)
qed

end
