(* ===== verification/Race.thy ===== *)
theory Race
  imports History "HOL-Library.Sublist" "HOL-Library.Multiset"
begin

text \<open>
  \<open>add_to_request_history\<close> (src/server.py, lines 132-148) run by several handler
  threads at once with no lock. Under CPython each statement of the method is atomic
  but a thread switch may fall between two of them: the length test of line 138, the
  \<open>pop(0)\<close> of line 139 and the \<open>append\<close> of line 142. A thread is at one of these
  statements with the entry it is to add; a step runs one statement of one thread.
  \<open>pop(0)\<close> of an empty list raises \<open>IndexError\<close>, which ends that thread's call
  without an append (the handler's \<open>except\<close> catches it). \<open>locked_step\<close> is the
  method run under a lock, as the specification asks (one whole call per step).
  \<open>sys_step\<close> adds the loop of \<open>create_group_page\<close> (line 195) that reads the
  history while these threads write it. The lemmas bound what \<open>k\<close> racing calls can
  do to the history (at most \<open>49 + k\<close> entries, a bound some interleaving reaches;
  entries leave only from the oldest end), show that the lock keeps the cap, and
  that without it the cap and the page's snapshot read both fail.
\<close>

datatype apc = AtCheck entry | AtPop entry | AtAppend entry | Finished

inductive race_step :: "entry list \<times> apc list \<Rightarrow> entry list \<times> apc list \<Rightarrow> bool" where
  check_full: "i < length ts \<Longrightarrow> ts ! i = AtCheck e \<Longrightarrow> history_cap \<le> length h \<Longrightarrow>
    race_step (h, ts) (h, ts[i := AtPop e])"
| check_room: "i < length ts \<Longrightarrow> ts ! i = AtCheck e \<Longrightarrow> length h < history_cap \<Longrightarrow>
    race_step (h, ts) (h, ts[i := AtAppend e])"
| pop: "i < length ts \<Longrightarrow> ts ! i = AtPop e \<Longrightarrow> h \<noteq> [] \<Longrightarrow>
    race_step (h, ts) (tl h, ts[i := AtAppend e])"
| pop_empty: "i < length ts \<Longrightarrow> ts ! i = AtPop e \<Longrightarrow> h = [] \<Longrightarrow>
    race_step (h, ts) (h, ts[i := Finished])"
| append: "i < length ts \<Longrightarrow> ts ! i = AtAppend e \<Longrightarrow>
    race_step (h, ts) (h @ [e], ts[i := Finished])"

inductive locked_step :: "entry list \<times> apc list \<Rightarrow> entry list \<times> apc list \<Rightarrow> bool" where
  call: "i < length ts \<Longrightarrow> ts ! i = AtCheck e \<Longrightarrow>
    locked_step (h, ts) (add_to_request_history h (request e) (response e), ts[i := Finished])"

code_pred race_step .
code_pred locked_step .

fun appending :: "apc \<Rightarrow> bool" where
  "appending (AtAppend e) = True"
| "appending _ = False"

text \<open>The calls that have passed the test and still owe their \<open>append\<close>.\<close>

definition owed :: "apc list \<Rightarrow> nat" where
  "owed ts = length (filter appending ts)"

text \<open>The entry a call still holds: every call holds its entry until it appends it or
  its \<open>pop(0)\<close> raises.\<close>

fun apc_entry :: "apc \<Rightarrow> entry list" where
  "apc_entry (AtCheck e) = [e]"
| "apc_entry (AtPop e) = [e]"
| "apc_entry (AtAppend e) = [e]"
| "apc_entry Finished = []"

definition carried :: "apc list \<Rightarrow> entry multiset" where
  "carried ts = sum_list (map (\<lambda>t. mset (apc_entry t)) ts)"

inductive_cases race_stepE: "race_step s s'"
inductive_cases locked_stepE: "locked_step s s'"

text \<open>\<open>create_group_page\<close> reads the history while other threads record into it:
  \<open>reversed(self.request_history)\<close> is CPython's reverse list iterator, which keeps
  an index (initially \<open>len - 1\<close>), yields \<open>list[index]\<close> and decrements it while the
  index is within the list, and stops otherwise. A system state is the history, the
  recording threads, the iterator's index (\<open>None\<close> once it has stopped) and the
  entries read so far; a step is a step of a recording thread or of the iterator.\<close>

type_synonym sys = "entry list \<times> apc list \<times> int option \<times> entry list"

inductive sys_step :: "sys \<Rightarrow> sys \<Rightarrow> bool" where
  writer: "race_step (h, ts) (h', ts') \<Longrightarrow> sys_step (h, ts, r, out) (h', ts', r, out)"
| read: "0 \<le> p \<Longrightarrow> nat p < length h \<Longrightarrow>
    sys_step (h, ts, Some p, out) (h, ts, Some (p - 1), out @ [h ! nat p])"
| stop: "\<not> (0 \<le> p \<and> nat p < length h) \<Longrightarrow> sys_step (h, ts, Some p, out) (h, ts, None, out)"

definition start_render :: "entry list \<Rightarrow> apc list \<Rightarrow> sys" where
  "start_render h ts = (h, ts, Some (int (length h) - 1), [])"

subsection \<open>Lemmas\<close>

lemma length_filter_upd:
  "i < length xs \<Longrightarrow>
   length (filter P (xs[i := x])) + (if P (xs ! i) then 1 else 0) = length (filter P xs) + (if P x then 1 else 0)"
proof (induction xs arbitrary: i)
  case (Cons y ys)
  then show ?case by (cases i) auto
qed simp

text \<open>C29: With add_to_request_history run under a lock, every reachable history holds at most 50 entries.\<close>

lemma locked_inv:
  "locked_step\<^sup>*\<^sup>* s s' \<Longrightarrow> hist_inv (fst s) \<Longrightarrow> hist_inv (fst s')"
proof (induction rule: rtranclp_induct)
  case (step y z)
  then show ?case by (auto elim!: locked_stepE intro: hist_inv_add)
qed simp

text \<open>C30: Once the history holds 50 entries or more, serialised calls keep its length unchanged, so an excess left by a race is never repaired.\<close>

lemma locked_full_stays:
  "locked_step\<^sup>*\<^sup>* s s' \<Longrightarrow> history_cap \<le> length (fst s) \<Longrightarrow> length (fst s') = length (fst s)"
proof (induction rule: rtranclp_induct)
  case (step y z)
  then show ?case by (auto elim!: locked_stepE simp: length_add_to_request_history)
qed simp

lemma race_two_threads:
  assumes "length h = history_cap"
  shows "race_step\<^sup>*\<^sup>* (h, [AtCheck e1, AtCheck e2]) (tl h @ [e1, e2], [Finished, Finished])"
proof -
  have ne: "h \<noteq> []" using assms by (auto simp: history_cap_def)
  have room: "length (tl h) < history_cap" using assms ne by (simp add: history_cap_def)
  have s1: "race_step (h, [AtCheck e1, AtCheck e2]) (h, [AtPop e1, AtCheck e2])"
    using race_step.check_full [of 0 "[AtCheck e1, AtCheck e2]" e1 h] assms by simp
  have s2: "race_step (h, [AtPop e1, AtCheck e2]) (tl h, [AtAppend e1, AtCheck e2])"
    using race_step.pop [of 0 "[AtPop e1, AtCheck e2]" e1 h] ne by simp
  have s3: "race_step (tl h, [AtAppend e1, AtCheck e2]) (tl h, [AtAppend e1, AtAppend e2])"
    using race_step.check_room [of 1 "[AtAppend e1, AtCheck e2]" e2 "tl h"] room by simp
  have s4: "race_step (tl h, [AtAppend e1, AtAppend e2]) (tl h @ [e1], [Finished, AtAppend e2])"
    using race_step.append [of 0 "[AtAppend e1, AtAppend e2]" e1 "tl h"] by simp
  have s5: "race_step (tl h @ [e1], [Finished, AtAppend e2]) (tl h @ [e1, e2], [Finished, Finished])"
    using race_step.append [of 1 "[Finished, AtAppend e2]" e2 "tl h @ [e1]"] by simp
  from s1 s2 s3 s4 s5 show ?thesis
    by (meson converse_rtranclp_into_rtranclp rtranclp.rtrancl_refl)
qed


lemma sum_list_upd:
  "i < length xs \<Longrightarrow>
   sum_list (map f (xs[i := x])) + f (xs ! i) = sum_list (map f xs) + (f x :: 'b :: comm_monoid_add)"
proof (induction xs arbitrary: i)
  case (Cons y ys)
  then show ?case by (cases i) (simp_all add: ac_simps)
qed simp

lemma owed_upd:
  "i < length ts \<Longrightarrow>
   owed (ts[i := x]) + (if appending (ts ! i) then 1 else 0) = owed ts + (if appending x then 1 else 0)"
  unfolding owed_def by (rule length_filter_upd)

lemma carried_upd:
  "i < length ts \<Longrightarrow> carried (ts[i := x]) + mset (apc_entry (ts ! i)) = carried ts + mset (apc_entry x)"
  unfolding carried_def by (rule sum_list_upd)

lemma owed_less: "i < length ts \<Longrightarrow> \<not> appending (ts ! i) \<Longrightarrow> owed ts < length ts"
  unfolding owed_def by (rule length_filter_less [of "ts ! i"]) simp_all

lemma owed_AtCheck: "owed (map AtCheck es) = 0"
  by (simp add: owed_def filter_empty_conv)

lemma carried_AtCheck: "carried (map AtCheck es) = mset es"
  by (induction es) (simp_all add: carried_def)

lemma race_step_length: "race_step s s' \<Longrightarrow> length (snd s') = length (snd s)"
  by (induction rule: race_step.induct) simp_all

lemma race_steps_length: "race_step\<^sup>*\<^sup>* s s' \<Longrightarrow> length (snd s') = length (snd s)"
  by (induction rule: rtranclp_induct) (auto dest: race_step_length)

text \<open>Each call that has passed the length test with room to spare adds at most one
  entry beyond the 49 it saw, so history plus owed appends stays below the cap plus
  the number of calls.\<close>

lemma race_step_owed:
  "race_step s s' \<Longrightarrow> length (fst s) + owed (snd s) < history_cap + length (snd s) \<Longrightarrow>
   length (fst s') + owed (snd s') < history_cap + length (snd s')"
proof (induction rule: race_step.induct)
  case (check_full i ts e h)
  then show ?case using owed_upd [of i ts "AtPop e"] by simp
next
  case (check_room i ts e h)
  then show ?case using owed_upd [of i ts "AtAppend e"] owed_less [of i ts] by simp
next
  case (pop i ts e h)
  then show ?case using owed_upd [of i ts "AtAppend e"] by (cases h) simp_all
next
  case (pop_empty i ts e h)
  then show ?case using owed_upd [of i ts Finished] by simp
next
  case (append i ts e h)
  then show ?case using owed_upd [of i ts Finished] by simp
qed

lemma race_steps_owed:
  "race_step\<^sup>*\<^sup>* s s' \<Longrightarrow> length (fst s) + owed (snd s) < history_cap + length (snd s) \<Longrightarrow>
   length (fst s') + owed (snd s') < history_cap + length (snd s')"
  by (induction rule: rtranclp_induct) (auto dest: race_step_owed)

text \<open>C2: With k >= 1 handlers recording at once, with no lock, into a history of at most 50 entries, the history never holds more than 49 + k entries in any interleaving: the cap of 50 is overshot by at most k - 1.\<close>

theorem race_history_bound:
  assumes "race_step\<^sup>*\<^sup>* (h, map AtCheck es) (h', ts')" and "hist_inv h" and "es \<noteq> []"
  shows "length h' < history_cap + length es"
proof -
  have "length h + owed (map AtCheck es) < history_cap + length (map AtCheck es)"
    using assms(2,3) owed_AtCheck [of es] by (cases es) (simp_all add: hist_inv_def)
  with race_steps_owed [OF assms(1)] show ?thesis
    using race_steps_length [OF assms(1)] by simp
qed

lemma suffix_tl_left: "suffix h ys \<Longrightarrow> suffix (tl h) ys"
  by (cases h) (auto simp: suffix_def)

lemma race_step_suffix:
  assumes "race_step s s'" and "suffix (fst s) (h0 @ zs)" and "mset zs + carried (snd s) \<subseteq># M"
  shows "\<exists>zs'. suffix (fst s') (h0 @ zs') \<and> mset zs' + carried (snd s') \<subseteq># M"
  using assms
proof (induction rule: race_step.induct)
  case (check_full i ts e h)
  then have "carried (ts[i := AtPop e]) = carried ts" using carried_upd [of i ts "AtPop e"] by simp
  then show ?case using check_full.prems by (intro exI [of _ zs]) simp
next
  case (check_room i ts e h)
  then have "carried (ts[i := AtAppend e]) = carried ts" using carried_upd [of i ts "AtAppend e"] by simp
  then show ?case using check_room.prems by (intro exI [of _ zs]) simp
next
  case (pop i ts e h)
  then have "carried (ts[i := AtAppend e]) = carried ts" using carried_upd [of i ts "AtAppend e"] by simp
  then show ?case using pop.prems suffix_tl_left [of h] by (intro exI [of _ zs]) simp
next
  case (pop_empty i ts e h)
  then have "carried (ts[i := Finished]) + {#e#} = carried ts" using carried_upd [of i ts Finished] by simp
  then have "mset zs + carried (ts[i := Finished]) \<subseteq># mset zs + carried ts"
    by (metis mset_subset_eq_add_left subset_mset.add_left_mono)
  then have "mset zs + carried (ts[i := Finished]) \<subseteq># M"
    using pop_empty.prems(2) by (metis snd_conv subset_mset.order_trans)
  then show ?case using pop_empty.prems(1) by (intro exI [of _ zs]) simp
next
  case (append i ts e h)
  have eq: "mset (zs @ [e]) + carried (ts[i := Finished]) = mset zs + carried ts"
    using carried_upd [of i ts Finished] append.hyps by simp
  have "mset (zs @ [e]) + carried (snd (h @ [e], ts[i := Finished])) \<subseteq># M"
    unfolding snd_conv eq using append.prems(2) by simp
  moreover have "suffix (fst (h @ [e], ts[i := Finished])) (h0 @ zs @ [e])"
    using append.prems(1) by (auto simp: suffix_def)
  ultimately show ?case by (metis append_assoc)
qed

lemma race_steps_suffix:
  "race_step\<^sup>*\<^sup>* s s' \<Longrightarrow> suffix (fst s) (h0 @ zs) \<Longrightarrow> mset zs + carried (snd s) \<subseteq># M \<Longrightarrow>
   \<exists>zs'. suffix (fst s') (h0 @ zs') \<and> mset zs' + carried (snd s') \<subseteq># M"
proof (induction arbitrary: zs rule: rtranclp_induct)
  case (step y z)
  then obtain zs1 where "suffix (fst y) (h0 @ zs1)" "mset zs1 + carried (snd y) \<subseteq># M" by blast
  then show ?case using race_step_suffix [OF step.hyps(2)] by blast
qed blast

text \<open>C4: Even with handlers racing, entries leave the history only at its oldest end and only the racing calls' entries are added, each call's at most once: the history is always a suffix of the old history followed by some of the calls' entries.\<close>

theorem race_history_suffix:
  assumes "race_step\<^sup>*\<^sup>* (h, map AtCheck es) (h', ts')"
  shows "\<exists>zs. suffix h' (h @ zs) \<and> mset zs \<subseteq># mset es"
proof -
  have "\<exists>zs. suffix h' (h @ zs) \<and> mset zs + carried ts' \<subseteq># mset es"
    using race_steps_suffix [OF assms, of h "[]" "mset es"] by (simp add: carried_AtCheck)
  then show ?thesis by (meson mset_subset_eq_add_left subset_mset.order_trans)
qed

lemma race_checks_room:
  "length h < history_cap \<Longrightarrow> race_step\<^sup>*\<^sup>* (h, pre @ map AtCheck es) (h, pre @ map AtAppend es)"
proof (induction es arbitrary: pre)
  case (Cons x xs)
  have "race_step (h, pre @ AtCheck x # map AtCheck xs) (h, pre @ AtAppend x # map AtCheck xs)"
    using race_step.check_room [of "length pre" "pre @ AtCheck x # map AtCheck xs" x h] Cons.prems
    by (simp add: list_update_append)
  moreover have "race_step\<^sup>*\<^sup>* (h, (pre @ [AtAppend x]) @ map AtCheck xs) (h, (pre @ [AtAppend x]) @ map AtAppend xs)"
    using Cons.IH Cons.prems by blast
  ultimately show ?case by (simp add: converse_rtranclp_into_rtranclp)
qed simp

lemma race_appends:
  "race_step\<^sup>*\<^sup>* (h, fs @ map AtAppend es) (h @ es, fs @ map (\<lambda>_. Finished) es)"
proof (induction es arbitrary: h fs)
  case (Cons x xs)
  have "race_step (h, fs @ AtAppend x # map AtAppend xs) (h @ [x], fs @ Finished # map AtAppend xs)"
    using race_step.append [of "length fs" "fs @ AtAppend x # map AtAppend xs" x h]
    by (simp add: list_update_append)
  moreover have "race_step\<^sup>*\<^sup>* (h @ [x], (fs @ [Finished]) @ map AtAppend xs)
      ((h @ [x]) @ xs, (fs @ [Finished]) @ map (\<lambda>_. Finished) xs)"
    by (rule Cons.IH)
  ultimately show ?case by (simp add: converse_rtranclp_into_rtranclp)
qed simp

text \<open>C31: The bound is reached: with k >= 1 handlers recording at once into a full history, the interleaving in which one call evicts while the others pass the length test before it appends drops the oldest entry and adds all k entries, 49 + k entries in all.\<close>

theorem race_reaches_bound:
  assumes "length h = history_cap"
  shows "race_step\<^sup>*\<^sup>* (h, map AtCheck (e # es)) (tl h @ e # es, map (\<lambda>_. Finished) (e # es))"
proof -
  have ne: "h \<noteq> []" and room: "length (tl h) < history_cap" using assms by (auto simp: history_cap_def)
  have s1: "race_step (h, AtCheck e # map AtCheck es) (h, AtPop e # map AtCheck es)"
    using race_step.check_full [of 0 "AtCheck e # map AtCheck es" e h] assms by simp
  have s2: "race_step (h, AtPop e # map AtCheck es) (tl h, AtAppend e # map AtCheck es)"
    using race_step.pop [of 0 "AtPop e # map AtCheck es" e h] ne by simp
  have s3: "race_step\<^sup>*\<^sup>* (tl h, [AtAppend e] @ map AtCheck es) (tl h, [AtAppend e] @ map AtAppend es)"
    using race_checks_room [OF room] by blast
  have s4: "race_step\<^sup>*\<^sup>* (tl h, [] @ map AtAppend (e # es)) (tl h @ e # es, [] @ map (\<lambda>_. Finished) (e # es))"
    by (rule race_appends)
  from s1 s2 s3 s4 show ?thesis
    by (simp add: converse_rtranclp_into_rtranclp rtranclp_trans)
qed

lemma race_step_pending: "race_step (h, ts) s' \<Longrightarrow> \<not> list_all (\<lambda>t. t = Finished) ts"
  by (auto simp: list_all_length elim!: race_stepE)

lemma render_reads:
  "p < length h \<Longrightarrow>
   sys_step\<^sup>*\<^sup>* (h, ts, Some (int p), out) (h, ts, Some (-1), out @ rev (take (Suc p) h))"
proof (induction p arbitrary: out)
  case 0
  have "sys_step (h, ts, Some 0, out) (h, ts, Some (-1), out @ [h ! 0])"
    using sys_step.read [of 0 h ts out] 0 by simp
  then show ?case using 0 by (simp add: take_Suc_conv_app_nth)
next
  case (Suc p)
  have n: "nat (int (Suc p)) = Suc p" "int (Suc p) - 1 = int p" by simp_all
  have "sys_step (h, ts, Some (int (Suc p)), out) (h, ts, Some (int p), out @ [h ! Suc p])"
    using sys_step.read [of "int (Suc p)" h ts out, unfolded n] Suc.prems by simp
  moreover have "sys_step\<^sup>*\<^sup>* (h, ts, Some (int p), out @ [h ! Suc p])
      (h, ts, Some (-1), (out @ [h ! Suc p]) @ rev (take (Suc p) h))"
    using Suc.IH [of "out @ [h ! Suc p]"] Suc.prems by (simp del: append_assoc)
  moreover have "(out @ [h ! Suc p]) @ rev (take (Suc p) h) = out @ rev (take (Suc (Suc p)) h)"
    using Suc.prems by (simp add: take_Suc_conv_app_nth)
  ultimately show ?case by (metis converse_rtranclp_into_rtranclp)
qed

lemma render_stop: "sys_step (h, ts, Some (-1), out) (h, ts, None, out)"
  by (rule sys_step.stop) simp

text \<open>C35: Rendering the index page while a handler records into a full history can show the newest entry twice and lose the oldest: the page shows a list that never was the history, where spec 4.4 asks for a snapshot.\<close>

lemma render_interleaved:
  assumes "length h = history_cap"
  shows "\<exists>h' out. sys_step\<^sup>*\<^sup>* (start_render h [AtCheck e]) (h', [Finished], None, out) \<and>
           out = last h # rev (tl h)"
proof -
  let ?h' = "tl h @ [e]"
  have ne: "h \<noteq> []" and l49: "length (tl h) = 49" using assms by (auto simp: history_cap_def)
  have "last h = h ! (length h - 1)" using ne by (rule last_conv_nth)
  then have last: "h ! 49 = last h" using assms by (simp add: history_cap_def)
  have s1: "sys_step (start_render h [AtCheck e]) (h, [AtCheck e], Some 48, [h ! 49])"
    using sys_step.read [of 49 h "[AtCheck e]" "[]"] assms by (simp add: start_render_def history_cap_def)
  have s2: "sys_step (h, [AtCheck e], Some 48, [h ! 49]) (h, [AtPop e], Some 48, [h ! 49])"
    using race_step.check_full [of 0 "[AtCheck e]" e h] assms by (simp add: sys_step.writer)
  have s3: "sys_step (h, [AtPop e], Some 48, [h ! 49]) (tl h, [AtAppend e], Some 48, [h ! 49])"
    using race_step.pop [of 0 "[AtPop e]" e h] ne by (simp add: sys_step.writer)
  have s4: "sys_step (tl h, [AtAppend e], Some 48, [h ! 49]) (?h', [Finished], Some 48, [h ! 49])"
    using race_step.append [of 0 "[AtAppend e]" e "tl h"] by (simp add: sys_step.writer)
  have s5: "sys_step\<^sup>*\<^sup>* (?h', [Finished], Some 48, [h ! 49])
      (?h', [Finished], Some (-1), [h ! 49] @ rev (take 49 ?h'))"
    using render_reads [of 48 ?h' "[Finished]" "[h ! 49]"] l49 by simp
  have "take 49 ?h' = tl h" using l49 by simp
  then have "sys_step\<^sup>*\<^sup>* (start_render h [AtCheck e]) (?h', [Finished], None, last h # rev (tl h))"
    using s1 s2 s3 s4 s5 render_stop [of ?h' "[Finished]" "[h ! 49] @ rev (tl h)"] last
    by (simp add: converse_rtranclp_into_rtranclp rtranclp.rtrancl_into_rtrancl)
  then show ?thesis by blast
qed

lemma render_alone:
  assumes "sys_step\<^sup>*\<^sup>* (h, ts, Some (int (length h) - 1), []) s" and "list_all (\<lambda>t. t = Finished) ts"
  shows "fst s = h \<and> fst (snd s) = ts \<and>
         (case fst (snd (snd s)) of
            Some p \<Rightarrow> -1 \<le> p \<and> p < int (length h) \<and> snd (snd (snd s)) @ rev (take (nat (p + 1)) h) = rev h
          | None \<Rightarrow> snd (snd (snd s)) = rev h)"
  using assms(1)
proof (induction rule: rtranclp_induct)
  case base
  then show ?case by simp
next
  case (step y z)
  obtain h1 ts1 r out where y: "y = (h1, ts1, r, out)" by (cases y) auto
  from step.IH y have h1: "h1 = h" "ts1 = ts" by simp_all
  from step.hyps(2) y h1 assms(2) show ?case
  proof (cases rule: sys_step.cases)
    case (writer h' ts')
    then show ?thesis using race_step_pending assms(2) y h1 by blast
  next
    case (read p)
    then have "take (nat (p + 1)) h = take (nat p) h @ [h ! nat p]"
      using y h1 by (auto simp: nat_add_distrib take_Suc_conv_app_nth)
    then show ?thesis using step.IH y h1 read by auto
  next
    case (stop p)
    then show ?thesis using step.IH y h1 by (auto simp: not_le)
  qed
qed

text \<open>C34: With no recording thread running, the loop over reversed(self.request_history) reads exactly the history, most recent first: the list create_group_page renders.\<close>

lemma render_snapshot:
  assumes "list_all (\<lambda>t. t = Finished) ts"
    and "sys_step\<^sup>*\<^sup>* (start_render h ts) (h', ts', None, out)"
  shows "out = rev h"
  using render_alone [OF assms(2) [unfolded start_render_def] assms(1)] by simp

end
