(* ===== verification/App.thy ===== *)
theory App
  imports Page
begin

text \<open>
  The Flask front-end src/app.py: \<open>REPORTS_FOLDER\<close> (line 6) and the list the
  \<open>index\<close> view passes to its template (lines 9-14). The template itself
  (templates/index.html) is not in the repository, so the rendering is not
  modelled. Unlike \<open>HTTPServer.list_reports\<close>, the view neither sorts the
  listing nor catches \<open>FileNotFoundError\<close> (Flask then answers 500).
\<close>

definition reports_folder :: "ustr \<Rightarrow> ustr" where
  "reports_folder static_folder = path_join static_folder (ascii ''reports'')"

definition app_index_reports :: "node \<Rightarrow> ustr \<Rightarrow> exc + ustr list" where
  "app_index_reports fs static_folder =
     (case os_listdir fs (reports_folder static_folder) of
        Inl e \<Rightarrow> Inl e
      | Inr files \<Rightarrow> Inr (filter (\<lambda>file. endswith file (ascii ''.pdf'')) files))"

subsection \<open>Lemmas\<close>

lemma reports_folder_same:
  "reports_folder (path_join (base_dir cfg) (ascii ''static'')) = reports_path cfg"
  by (simp add: reports_folder_def reports_path_def)

text \<open>C39: When the reports folder can be listed, the Flask view passes its .pdf names in the order os.listdir returns them, while HTTPServer.list_reports passes the same names sorted.\<close>

lemma app_reports_vs_server:
  assumes "os_listdir fs (reports_path cfg) = Inr files"
  shows "app_index_reports fs (path_join (base_dir cfg) (ascii ''static'')) =
           Inr (filter (\<lambda>file. endswith file (ascii ''.pdf'')) files)
         \<and> list_reports cfg fs = Inr (sort (filter (\<lambda>file. endswith file (ascii ''.pdf'')) files))"
  using assms by (simp add: app_index_reports_def list_reports_def reports_folder_same filter_sort)

text \<open>C40: When the reports folder does not exist, the Flask view raises FileNotFoundError, where the server's list_reports returns an empty list.\<close>

lemma app_reports_missing:
  assumes "base_dir (cfg :: config) = abs_path ds" and "ds \<noteq> []" and "\<forall>x \<in> set ds. good_name x"
    and "lookup fs (ds @ [ascii ''static'']) = Some (Dir es)" and "map_of es (ascii ''reports'') = None"
  shows "app_index_reports fs (path_join (base_dir cfg) (ascii ''static'')) = Inl FileNotFoundError"
proof -
  have "os_listdir fs (abs_path ((ds @ [ascii ''static'']) @ [ascii ''reports''])) = Inl FileNotFoundError"
    using assms(3-5) by (intro os_listdir_missing) (auto simp: good_name_def ascii_def)
  then show ?thesis
    using reports_path_abs [OF assms(1-3)] by (simp add: app_index_reports_def reports_folder_same)
qed

end
