(* ===== verification/Console.thy ===== *)
theory Console
  imports Server "HOL-Library.Sublist"
begin

text \<open>
  Console logging of src/server.py: every \<open>print\<close> of \<open>HTTPServer\<close> (lines 31, 33,
  43-44, 115-116, 125, 148, 157, 171, 176, 179, 268, 278), placed in the handler,
  the history recorder, the page builder, the PDF server and the listener where the
  source calls it. \<open>print(a, b)\<close> writes \<open>str(a)\<close>, the separator \<open>' '\<close>,
  \<open>str(b)\<close> and the end \<open>'\n'\<close> one after another to \<open>sys.stdout\<close>, whose
  text layer encodes each write at once: a write that the encoding refuses raises
  \<open>UnicodeEncodeError\<close>, and the earlier writes stay. Standard output encodes UTF-8
  with the error handler \<open>strict\<close> (a UTF-8 locale) or \<open>surrogateescape\<close> (the
  C locale, Python's UTF-8 mode), which also writes the lone surrogates
  U+DC80..U+DCFF that \<open>os.listdir\<close> makes of bytes that are not UTF-8.
  The standard output is the list of the pieces written. A piece is either text or
  one of four strings whose exact characters are CPython's formatting, kept
  symbolic: \<open>str(client_address)\<close> (an IP address and a port, ASCII),
  \<open>repr\<close> of a list of names (\<open>repr\<close> escapes lone surrogates), \<open>str(e)\<close> of
  an exception of the handler and \<open>str(e)\<close> of the \<open>OSError\<close> of \<open>socket\<close>,
  \<open>bind\<close> or \<open>listen\<close> (CPython's messages show the offending characters
  escaped); these always encode.
  The handler with its prints (\<open>handle_client_io\<close>) refines the print-free handler
  of theory \<open>Handler\<close>: whenever no print raises, it does what \<open>handle_client\<close>
  does to the history, the socket and the caught exception.
\<close>

datatype stdout_errors = Strict | Surrogateescape

datatype piece = Text ustr | Peer | Repr_names "ustr list" | Exc_text exc | Os_error_text

text \<open>\<open>str\<close> of one argument of \<open>print\<close> (an f-string is one argument), as pieces.\<close>

type_synonym arg = "piece list"

record cstate =
  hs :: hstate
  out :: "piece list"

definition enc_ok :: "stdout_errors \<Rightarrow> cp \<Rightarrow> bool" where
  "enc_ok m c \<longleftrightarrow> valid_cp c \<or> (m = Surrogateescape \<and> 56448 \<le> c \<and> c \<le> 56575)"

fun piece_ok :: "stdout_errors \<Rightarrow> piece \<Rightarrow> bool" where
  "piece_ok m (Text s) = list_all (enc_ok m) s"
| "piece_ok m _ = True"

text \<open>The writes of one \<open>print\<close>, in order; the first refused one raises.\<close>

fun write_args :: "stdout_errors \<Rightarrow> arg list \<Rightarrow> piece list \<Rightarrow> (exc \<times> piece list) + piece list" where
  "write_args m [] w = Inr w"
| "write_args m (a # as) w =
     (if list_all (piece_ok m) a then write_args m as (w @ a) else Inl (UnicodeEncodeError, w))"

text \<open>\<open>print(*args)\<close>: each argument, \<open>sep=' '\<close> between two, \<open>end='\\n'\<close> last.\<close>

fun print_writes :: "arg list \<Rightarrow> arg list" where
  "print_writes [] = [[Text [10]]]"
| "print_writes [a] = [a, [Text [10]]]"
| "print_writes (a # b # as) = a # [Text [32]] # print_writes (b # as)"

definition py_print :: "stdout_errors \<Rightarrow> arg list \<Rightarrow> piece list \<Rightarrow> (exc \<times> piece list) + piece list" where
  "py_print m args w = write_args m (print_writes args) w"

definition say :: "stdout_errors \<Rightarrow> arg list \<Rightarrow> cstate \<Rightarrow> (exc \<times> cstate) + cstate" where
  "say m args c =
     (case py_print m args (out c) of
        Inl (e, w) \<Rightarrow> Inl (e, c\<lparr>out := w\<rparr>)
      | Inr w \<Rightarrow> Inr (c\<lparr>out := w\<rparr>))"

text \<open>A socket operation of theory \<open>Handler\<close> on the connection part of the state.\<close>

definition lift :: "(hstate \<Rightarrow> (exc \<times> hstate) + hstate) \<Rightarrow> cstate \<Rightarrow> (exc \<times> cstate) + cstate" where
  "lift f c =
     (case f (hs c) of
        Inl (e, s) \<Rightarrow> Inl (e, c\<lparr>hs := s\<rparr>)
      | Inr s \<Rightarrow> Inr (c\<lparr>hs := s\<rparr>))"

text \<open>Sequencing: an exception skips the rest.\<close>

definition seq :: "('e \<times> 's) + 's \<Rightarrow> ('s \<Rightarrow> ('e \<times> 's) + 'u) \<Rightarrow> ('e \<times> 's) + 'u" where
  "seq r f = (case r of Inl x \<Rightarrow> Inl x | Inr s \<Rightarrow> f s)"

subsection \<open>The messages\<close>

definition msg_started :: ustr where
  "msg_started = [1057, 1077, 1088, 1074, 1077, 1088, 32, 1079, 1072, 1087, 1091, 1097, 1077, 1085, 32, 1085, 1072, 32]"

definition msg_socket_error :: ustr where
  "msg_socket_error = [1054, 1096, 1080, 1073, 1082, 1072, 32, 1087, 1088, 1080, 32, 1089, 1086, 1079, 1076, 1072,
     1085, 1080, 1080, 32, 1089, 1086, 1082, 1077, 1090, 1072, 58, 32]"

definition msg_received :: ustr where
  "msg_received = 10 # [1055, 1086, 1083, 1091, 1095, 1077, 1085, 1085, 1099, 1081, 32, 1079, 1072, 1087, 1088,
     1086, 1089, 32, 1086, 1090, 32]"

definition msg_sending :: ustr where
  "msg_sending = 10 # [1054, 1090, 1087, 1088, 1072, 1074, 1083, 1103, 1077, 1084, 1099, 1081, 32, 1086, 1090,
     1074, 1077, 1090, 58]"

definition msg_error :: ustr where
  "msg_error = [1054, 1096, 1080, 1073, 1082, 1072, 32, 1087, 1088, 1080, 32, 1086, 1073, 1088, 1072, 1073, 1086,
     1090, 1082, 1077, 32, 1079, 1072, 1087, 1088, 1086, 1089, 1072, 58, 32]"

definition msg_added :: ustr where
  "msg_added = ascii ''DEBUG: '' @ [1044, 1086, 1073, 1072, 1074, 1083, 1077, 1085, 1072, 32, 1079, 1072, 1087,
     1080, 1089, 1100, 32, 1074, 32, 1080, 1089, 1090, 1086, 1088, 1080, 1102, 46, 32, 1056, 1072, 1079, 1084,
     1077, 1088, 58, 32]"

definition msg_pdf_missing :: ustr where
  "msg_pdf_missing = ascii ''PDF '' @ [1092, 1072, 1081, 1083, 32, 1085, 1077, 32, 1085, 1072, 1081, 1076, 1077,
     1085, 58, 32]"

definition msg_connection :: ustr where
  "msg_connection = 10 # [1055, 1086, 1076, 1082, 1083, 1102, 1095, 1077, 1085, 1080, 1077, 32, 1086, 1090, 32]"

definition msg_stopped :: ustr where
  "msg_stopped = 10 # [1057, 1077, 1088, 1074, 1077, 1088, 32, 1086, 1089, 1090, 1072, 1085, 1086, 1074, 1083,
     1077, 1085, 46]"

subsection \<open>The handler with its prints\<close>

text \<open>\<open>add_to_request_history\<close> (lines 132-148): record, then print the new size.\<close>

definition record_io :: "stdout_errors \<Rightarrow> ustr \<Rightarrow> ustr \<Rightarrow> cstate \<Rightarrow> (exc \<times> cstate) + cstate" where
  "record_io m q r c =
     (let c1 = c\<lparr>hs := record_hist q r (hs c)\<rparr>
      in say m [[Text (msg_added @ str_of_nat (length (hist (hs c1))))]] c1)"

text \<open>\<open>create_group_page\<close> (lines 169-257) with its three debugging prints
  (lines 171, 176, 179); the page is returned with the state.\<close>

definition create_group_page_io ::
  "stdout_errors \<Rightarrow> config \<Rightarrow> node \<Rightarrow> cstate \<Rightarrow> (exc \<times> cstate) + (ustr \<times> cstate)" where
  "create_group_page_io m cfg fs c =
     (case list_reports cfg fs of
        Inl e \<Rightarrow> Inl (e, c)
      | Inr reports \<Rightarrow>
          seq (say m [[Text (ascii ''DEBUG: reports ='')], [Repr_names reports]] c) (\<lambda>c1.
            let reports_html = concat (map report_item reports) in
            seq (say m [[Text (ascii ''DEBUG: reports_html ='')], [Text reports_html]] c1) (\<lambda>c2.
              seq (say m [[Text (ascii ''DEBUG: HTML length ='')], [Text (str_of_nat (length reports_html))]] c2)
                (\<lambda>c3. Inr (page_part1 @ reports_html @ page_part2 @
                          concat (map entry_html (rev (hist (hs c3)))) @ page_part3, c3)))))"

text \<open>\<open>serve_pdf\<close> (lines 150-158) with the print of a missing file (line 157).\<close>

definition serve_pdf_io ::
  "stdout_errors \<Rightarrow> config \<Rightarrow> node \<Rightarrow> ustr \<Rightarrow> cstate \<Rightarrow> (exc \<times> cstate) + (bytes option \<times> cstate)" where
  "serve_pdf_io m cfg fs path c =
     (let full_path = path_join (base_dir cfg) (lstrip_char 47 path) in
      case os_read fs full_path of
        Inl e \<Rightarrow>
          if e = FileNotFoundError then
            seq (say m [[Text (msg_pdf_missing @ full_path)]] c) (\<lambda>c1. Inr (None, c1))
          else Inl (e, c)
      | Inr bs \<Rightarrow> Inr (Some bs, c))"

text \<open>Lines 115-122: print the response, record, send.\<close>

definition respond_io :: "stdout_errors \<Rightarrow> bool \<Rightarrow> ustr \<Rightarrow> ustr \<Rightarrow> cstate \<Rightarrow> (exc \<times> cstate) + cstate" where
  "respond_io m alive req resp c =
     seq (say m [[Text msg_sending]] c) (\<lambda>c1.
       seq (say m [[Text resp]] c1) (\<lambda>c2.
         seq (record_io m req resp c2) (lift (send_text alive resp))))"

text \<open>Lines 59-60.\<close>

definition send_then_record_io :: "stdout_errors \<Rightarrow> bool \<Rightarrow> ustr \<Rightarrow> ustr \<Rightarrow> cstate \<Rightarrow> (exc \<times> cstate) + cstate" where
  "send_then_record_io m alive req resp c = seq (lift (send_text alive resp) c) (record_io m req resp)"

text \<open>Lines 94-98.\<close>

definition send_pdf_io :: "stdout_errors \<Rightarrow> bool \<Rightarrow> ustr \<Rightarrow> bytes \<Rightarrow> cstate \<Rightarrow> (exc \<times> cstate) + cstate" where
  "send_pdf_io m alive req body c =
     seq (lift (send_text alive (pdf_header body)) c) (\<lambda>c1.
       seq (lift (sendall alive body) c1) (\<lambda>c2.
         seq (record_io m req pdf_sent c2) (\<lambda>c3. Inr (c3\<lparr>hs := close_sock (hs c3)\<rparr>))))"

text \<open>The body of the outer \<open>try\<close> (lines 39-122): decoding, the prints of lines
  43-44, then the dispatch on the request line (lines 47-122, \<open>dispatch_io\<close>). A
  \<open>GET\<close> of any other path prints line 115 before \<open>print(response)\<close> raises
  \<open>UnboundLocalError\<close>.\<close>

definition dispatch_io ::
  "stdout_errors \<Rightarrow> config \<Rightarrow> node \<Rightarrow> bool \<Rightarrow> ustr \<Rightarrow> cstate \<Rightarrow> (exc \<times> cstate) + cstate" where
  "dispatch_io m cfg fs alive req c =
     (case parse_request_line req of
        None \<Rightarrow> send_then_record_io m alive req resp_400 c
      | Some (method, path, protocol) \<Rightarrow>
          if path = ascii ''/favicon.ico'' then lift (send_text alive resp_favicon) c
          else if method = ascii ''GET'' then
            if path = ascii ''/'' then
              (case create_group_page_io m cfg fs c of
                 Inl r \<Rightarrow> Inl r
               | Inr (body, c1) \<Rightarrow> respond_io m alive req (index_response body) c1)
            else if startswith path (ascii ''/static/reports/'') then
              (case serve_pdf_io m cfg fs path c of
                 Inl r \<Rightarrow> Inl r
               | Inr (None, c1) \<Rightarrow> respond_io m alive req resp_404 c1
               | Inr (Some body, c1) \<Rightarrow>
                   if body \<noteq> [] then send_pdf_io m alive req body c1
                   else respond_io m alive req resp_404 c1)
            else seq (say m [[Text msg_sending]] c) (\<lambda>c1. Inl (UnboundLocalError, c1))
          else respond_io m alive req resp_405 c)"

definition handle_request_io ::
  "stdout_errors \<Rightarrow> config \<Rightarrow> node \<Rightarrow> bool \<Rightarrow> bytes \<Rightarrow> cstate \<Rightarrow> (exc \<times> cstate) + cstate" where
  "handle_request_io m cfg fs alive data c =
     (case utf8_decode (take 1024 data) of
        None \<Rightarrow> Inl (UnicodeDecodeError, c)
      | Some req \<Rightarrow>
          seq (say m [[Text msg_received, Peer, Text [58]]] c) (\<lambda>c1.
            seq (say m [[Text req]] c1) (dispatch_io m cfg fs alive req)))"

text \<open>\<open>handle_client\<close> (lines 36-130): the \<open>except\<close> prints the exception (line
  125); an exception of that print would leave the handler after the \<open>finally\<close>.\<close>

definition handle_client_io ::
  "stdout_errors \<Rightarrow> config \<Rightarrow> node \<Rightarrow> bool \<Rightarrow> bytes \<Rightarrow> entry list \<Rightarrow> piece list \<Rightarrow> cstate" where
  "handle_client_io m cfg fs alive data h w =
     (let c1 = (case handle_request_io m cfg fs alive data \<lparr>hs = init_hstate h, out = w\<rparr> of
                  Inl (e, c) \<Rightarrow>
                    (let c' = c\<lparr>hs := (hs c)\<lparr>logged := Some e\<rparr>\<rparr> in
                     case say m [[Text msg_error, Exc_text e]] c' of Inl (e', c'') \<Rightarrow> c'' | Inr c'' \<Rightarrow> c'')
                | Inr c \<Rightarrow> c)
      in if closed (hs c1) then c1 else c1\<lparr>hs := close_sock (hs c1)\<rparr>)"


subsection \<open>What the standard output accepts\<close>

text \<open>No print of a handler raises when the base directory, every name of the file
  system and every recorded string encode.\<close>

definition console_ok :: "stdout_errors \<Rightarrow> config \<Rightarrow> node \<Rightarrow> entry list \<Rightarrow> bool" where
  "console_ok m cfg fs h \<longleftrightarrow>
     list_all (enc_ok m) (base_dir cfg) \<and> all_names (list_all (enc_ok m)) fs \<and> hist_chars (enc_ok m) h"

text \<open>The connection part of a result.\<close>

definition proj :: "(exc \<times> cstate) + cstate \<Rightarrow> (exc \<times> hstate) + hstate" where
  "proj r = (case r of Inl (e, c) \<Rightarrow> Inl (e, hs c) | Inr c \<Rightarrow> Inr (hs c))"

text \<open>The state a result leaves, whether it raised or not.\<close>

definition cres :: "(exc \<times> cstate) + cstate \<Rightarrow> cstate" where
  "cres r = (case r of Inl (e, c) \<Rightarrow> c | Inr c \<Rightarrow> c)"

text \<open>The state a result with a value leaves.\<close>

definition cres2 :: "(exc \<times> cstate) + ('a \<times> cstate) \<Rightarrow> cstate" where
  "cres2 r = (case r of Inl (e, c) \<Rightarrow> c | Inr (a, c) \<Rightarrow> c)"

abbreviation hinv :: "stdout_errors \<Rightarrow> cstate \<Rightarrow> bool" where
  "hinv m c \<equiv> hist_chars (enc_ok m) (hist (hs c))"

subsection \<open>Lemmas: printing\<close>

lemma valid_enc_ok: "list_all valid_cp s \<Longrightarrow> list_all (enc_ok m) s"
  by (simp add: enc_ok_def list_all_iff)

lemma enc_ok_valid: "\<forall>c. valid_cp c \<longrightarrow> enc_ok m c"
  by (simp add: enc_ok_def)

lemma msgs_valid [simp]:
  "list_all valid_cp msg_started" "list_all valid_cp msg_socket_error" "list_all valid_cp msg_received"
  "list_all valid_cp msg_sending" "list_all valid_cp msg_error" "list_all valid_cp msg_added"
  "list_all valid_cp msg_pdf_missing" "list_all valid_cp msg_connection" "list_all valid_cp msg_stopped"
  by (simp_all add: msg_started_def msg_socket_error_def msg_received_def msg_sending_def msg_error_def
      msg_added_def msg_pdf_missing_def msg_connection_def msg_stopped_def valid_cp_def)

lemma write_args_ok: "list_all (list_all (piece_ok m)) as \<Longrightarrow> write_args m as w = Inr (w @ concat as)"
  by (induction as arbitrary: w) simp_all

lemma print_writes_ok [simp]:
  "list_all (list_all (piece_ok m)) (print_writes args) \<longleftrightarrow> list_all (list_all (piece_ok m)) args"
  by (induction args rule: print_writes.induct) (simp_all add: enc_ok_def valid_cp_def)

text \<open>A print whose arguments all encode writes them and changes nothing else.\<close>

lemma say_ok:
  "list_all (list_all (piece_ok m)) args \<Longrightarrow> say m args c = Inr (c\<lparr>out := out c @ concat (print_writes args)\<rparr>)"
  by (simp add: say_def py_print_def write_args_ok)

lemma say_text [simp]:
  "list_all (enc_ok m) s \<Longrightarrow> say m [[Text s]] c = Inr (c\<lparr>out := out c @ [Text s, Text [10]]\<rparr>)"
  by (simp add: say_ok)

lemma seq_simps [simp]: "seq (Inl x) f = Inl x" "seq (Inr s) f = f s"
  by (simp_all add: seq_def)

lemma proj_simps [simp]: "proj (Inl (e, c)) = Inl (e, hs c)" "proj (Inr c) = Inr (hs c)"
  by (simp_all add: proj_def)

lemma proj_lift [simp]: "proj (lift f c) = f (hs c)"
  by (simp add: lift_def split: sum.splits prod.splits)

lemma record_io_eq:
  "record_io m q r c =
     Inr (c\<lparr>hs := record_hist q r (hs c),
            out := out c @ [Text (msg_added @ str_of_nat (length (hist (record_hist q r (hs c))))), Text [10]]\<rparr>)"
  by (simp add: record_io_def valid_enc_ok)


subsection \<open>Lemmas: the handler with prints refines the handler\<close>

lemma send_then_record_io_proj:
  "proj (send_then_record_io m alive req resp c) = send_then_record alive req resp (hs c)"
  by (simp add: send_then_record_io_def send_then_record_def lift_def record_io_eq split: sum.splits prod.splits)

lemma respond_io_proj:
  "list_all (enc_ok m) resp \<Longrightarrow> proj (respond_io m alive req resp c) = respond alive req resp (hs c)"
  by (simp add: respond_io_def respond_def valid_enc_ok record_io_eq)

lemma send_pdf_io_proj: "proj (send_pdf_io m alive req body c) = send_pdf alive req body (hs c)"
  by (simp add: send_pdf_io_def send_pdf_def lift_def record_io_eq split: sum.splits prod.splits)

lemma create_group_page_io_Inl:
  "create_group_page cfg fs (hist (hs c)) = Inl e \<Longrightarrow> create_group_page_io m cfg fs c = Inl (e, c)"
  by (simp add: create_group_page_io_def create_group_page_def split: sum.splits)

lemma create_group_page_io_Inr:
  assumes "create_group_page cfg fs (hist (hs c)) = Inr body" and "all_names (list_all (enc_ok m)) fs"
  shows "\<exists>w. create_group_page_io m cfg fs c = Inr (body, c\<lparr>out := w\<rparr>)"
proof -
  obtain rs where rs: "list_reports cfg fs = Inr rs" and body:
    "body = page_part1 @ concat (map report_item rs) @ page_part2 @
            concat (map entry_html (rev (hist (hs c)))) @ page_part3"
    using create_group_page_parts [OF assms(1)] by blast
  have "\<forall>r \<in> set rs. list_all (enc_ok m) (report_item r)"
    using list_reports_names [OF rs assms(2)] report_item_chars enc_ok_valid by blast
  then have "list_all (enc_ok m) (concat (map report_item rs))" by (simp add: list_all_iff)
  then show ?thesis by (simp add: create_group_page_io_def rs body say_ok valid_enc_ok Let_def) blast
qed

lemma path_join_chars: "list_all P a \<Longrightarrow> list_all P b \<Longrightarrow> P 47 \<Longrightarrow> list_all P (path_join a b)"
  by (simp add: path_join_def)

lemma lstrip_char_chars: "list_all P s \<Longrightarrow> list_all P (lstrip_char c s)"
  by (auto simp: lstrip_char_def list_all_iff dest: set_dropWhileD)

lemma serve_pdf_io_Inl: "serve_pdf cfg fs path = Inl e \<Longrightarrow> serve_pdf_io m cfg fs path c = Inl (e, c)"
  by (simp add: serve_pdf_io_def serve_pdf_def Let_def split: sum.splits if_splits)

lemma serve_pdf_io_Inr:
  assumes "serve_pdf cfg fs path = Inr x"
    and "list_all (enc_ok m) (base_dir cfg)" and "list_all (enc_ok m) path"
  shows "\<exists>w. serve_pdf_io m cfg fs path c = Inr (x, c\<lparr>out := w\<rparr>)"
proof -
  have "list_all (enc_ok m) (path_join (base_dir cfg) (lstrip_char 47 path))"
    using assms(2,3) by (simp add: path_join_chars lstrip_char_chars enc_ok_def valid_cp_def)
  with assms(1) show ?thesis
    by (auto simp: serve_pdf_io_def serve_pdf_def Let_def valid_enc_ok split: sum.splits if_splits)
      (rule exI [where x = "out c"], simp)
qed

lemma parse_request_line_valid:
  assumes "parse_request_line req = Some (mt, p, v)" and "list_all valid_cp req"
  shows "list_all valid_cp p"
proof -
  obtain tok where "tok \<in> set (py_split (py_strip (first_line req)))" and p: "p = unquote tok"
    using assms(1) by (auto simp: parse_request_line_def split: list.splits)
  then have "set tok \<subseteq> set req"
    using py_split_chars set_py_strip set_first_line by blast
  then have "list_all valid_cp tok" using assms(2) by (auto simp: list_all_iff)
  then show ?thesis by (simp add: p unquote_valid)
qed

lemma index_response_enc: "list_all (enc_ok m) body \<Longrightarrow> list_all (enc_ok m) (index_response body)"
  by (simp add: index_response_def valid_enc_ok enc_ok_def valid_cp_def)


lemma say_ascii [simp]: "c < 128 \<Longrightarrow> enc_ok m c"
  by (simp add: enc_ok_def valid_cp_def)

lemma create_group_page_enc:
  "create_group_page cfg fs h = Inr body \<Longrightarrow> console_ok m cfg fs h \<Longrightarrow> list_all (enc_ok m) body"
  using create_group_page_chars [of cfg fs h body "enc_ok m"] enc_ok_valid
  by (auto simp: console_ok_def hist_chars_def)

lemma handle_request_io_proj:
  assumes ok: "console_ok m cfg fs (hist (hs c))"
  shows "proj (handle_request_io m cfg fs alive data c) = handle_request cfg fs alive data (hs c)"
proof (cases "utf8_decode (take 1024 data)")
  case None
  then show ?thesis by (simp add: handle_request_io_def handle_request_def)
next
  case (Some req)
  have req: "list_all valid_cp req" using Some by (rule decoded_valid)
  let ?c2 = "c\<lparr>out := out c @ [Text msg_received, Peer, Text [58], Text [10], Text req, Text [10]]\<rparr>"
  have hs2: "hs ?c2 = hs c" by simp
  show ?thesis
  proof (cases "parse_request_line req")
    case None
    with Some req show ?thesis
      by (simp add: handle_request_io_def dispatch_io_def handle_request_def say_ok valid_enc_ok
          send_then_record_io_proj)
  next
    case (Some mpv)
    obtain mt p v where mpv: "mpv = (mt, p, v)" by (cases mpv) auto
    have pv: "list_all (enc_ok m) p"
      using parse_request_line_valid [of req mt p v] Some mpv req valid_enc_ok by simp
    have io: "handle_request_io m cfg fs alive data c = dispatch_io m cfg fs alive req ?c2"
      using \<open>utf8_decode (take 1024 data) = Some req\<close> req
      by (simp add: handle_request_io_def say_ok valid_enc_ok)
    have pl: "handle_request cfg fs alive data (hs c) =
      (if p = ascii ''/favicon.ico'' then send_text alive resp_favicon (hs c)
       else if mt = ascii ''GET'' then
         if p = ascii ''/'' then
           (case create_group_page cfg fs (hist (hs c)) of
              Inl e \<Rightarrow> Inl (e, hs c)
            | Inr body \<Rightarrow> respond alive req (index_response body) (hs c))
         else if startswith p (ascii ''/static/reports/'') then
           (case serve_pdf cfg fs p of
              Inl e \<Rightarrow> Inl (e, hs c)
            | Inr None \<Rightarrow> respond alive req resp_404 (hs c)
            | Inr (Some body) \<Rightarrow>
                if body \<noteq> [] then send_pdf alive req body (hs c) else respond alive req resp_404 (hs c))
         else Inl (UnboundLocalError, hs c)
       else respond alive req resp_405 (hs c))"
      using \<open>utf8_decode (take 1024 data) = Some req\<close> Some mpv by (simp add: handle_request_def)
    have base: "list_all (enc_ok m) (base_dir cfg)" using ok by (simp add: console_ok_def)
    have cgp: "proj (case create_group_page_io m cfg fs ?c2 of
                 Inl r \<Rightarrow> Inl r | Inr (body, c3) \<Rightarrow> respond_io m alive req (index_response body) c3) =
               (case create_group_page cfg fs (hist (hs c)) of
                 Inl e \<Rightarrow> Inl (e, hs c) | Inr body \<Rightarrow> respond alive req (index_response body) (hs c))"
    proof (cases "create_group_page cfg fs (hist (hs c))")
      case (Inl e)
      then show ?thesis using create_group_page_io_Inl [of cfg fs ?c2 e m] by simp
    next
      case (Inr body)
      then obtain w where "create_group_page_io m cfg fs ?c2 = Inr (body, ?c2\<lparr>out := w\<rparr>)"
        using create_group_page_io_Inr [of cfg fs ?c2 body m] ok by (auto simp: console_ok_def)
      moreover have "list_all (enc_ok m) (index_response body)"
        using create_group_page_enc [OF Inr ok] by (rule index_response_enc)
      ultimately show ?thesis using Inr by (simp add: respond_io_proj)
    qed
    have spdf: "proj (case serve_pdf_io m cfg fs p ?c2 of
              Inl r \<Rightarrow> Inl r
            | Inr (None, c3) \<Rightarrow> respond_io m alive req resp_404 c3
            | Inr (Some body, c3) \<Rightarrow>
                if body \<noteq> [] then send_pdf_io m alive req body c3 else respond_io m alive req resp_404 c3) =
           (case serve_pdf cfg fs p of
              Inl e \<Rightarrow> Inl (e, hs c)
            | Inr None \<Rightarrow> respond alive req resp_404 (hs c)
            | Inr (Some body) \<Rightarrow>
                if body \<noteq> [] then send_pdf alive req body (hs c) else respond alive req resp_404 (hs c))"
    proof (cases "serve_pdf cfg fs p")
      case (Inl e)
      then show ?thesis using serve_pdf_io_Inl [of cfg fs p e m ?c2] by simp
    next
      case (Inr x)
      then obtain w where "serve_pdf_io m cfg fs p ?c2 = Inr (x, ?c2\<lparr>out := w\<rparr>)"
        using serve_pdf_io_Inr [of cfg fs p x m ?c2] base pv by auto
      then show ?thesis using Inr
        by (simp add: respond_io_proj send_pdf_io_proj valid_enc_ok split: option.splits)
    qed
    show ?thesis
      unfolding io pl using cgp spdf Some mpv by (simp add: dispatch_io_def respond_io_proj valid_enc_ok)
  qed
qed

text \<open>The handler with its prints, when none of them raises, does to the history, the
  socket and the caught exception exactly what \<open>handle_client\<close> does.\<close>

lemma handle_client_io_refines:
  assumes "console_ok m cfg fs h"
  shows "hs (handle_client_io m cfg fs alive data h w) = handle_client cfg fs alive data h"
proof -
  let ?c0 = "\<lparr>hs = init_hstate h, out = w\<rparr>"
  have p: "proj (handle_request_io m cfg fs alive data ?c0) = handle_request cfg fs alive data (init_hstate h)"
    using handle_request_io_proj [of m cfg fs ?c0] assms by (simp add: init_hstate_def)
  show ?thesis
  proof (cases "handle_request_io m cfg fs alive data ?c0")
    case (Inl r)
    obtain e c where r: "r = (e, c)" by (cases r)
    then show ?thesis using Inl p [symmetric]
      by (simp add: handle_client_io_def handle_client_def say_ok valid_enc_ok Let_def)
  next
    case (Inr c)
    then show ?thesis using p [symmetric] by (simp add: handle_client_io_def handle_client_def Let_def)
  qed
qed


subsection \<open>Lemmas: only printed text is recorded\<close>

lemma write_args_hist: "write_args m as w = Inr w' \<Longrightarrow> list_all (list_all (piece_ok m)) as"
  by (induction as arbitrary: w) (auto split: if_splits)

lemma say_Inr_ok: "say m args c = Inr c' \<Longrightarrow> list_all (list_all (piece_ok m)) args"
  by (auto simp: say_def py_print_def split: sum.splits prod.splits dest: write_args_hist)

lemma hs_say [simp]: "hs (cres (say m args c)) = hs c"
  by (simp add: say_def cres_def split: sum.splits prod.splits)

lemma hs_say_Inr: "say m args c = Inr c' \<Longrightarrow> hs c' = hs c"
  using hs_say [of m args c] by (simp add: cres_def)

lemma hs_say_Inl: "say m args c = Inl (e, c') \<Longrightarrow> hs c' = hs c"
  using hs_say [of m args c] by (simp add: cres_def)

lemma cres_simps [simp]: "cres (Inl (e, c)) = c" "cres (Inr c) = c"
  by (simp_all add: cres_def)

lemma hist_lift [simp]: "hist (hs (cres (lift f c))) = hist (result_state (f (hs c)))"
  by (simp add: lift_def cres_def result_state_def split: sum.splits prod.splits)

lemma cres_seq: "cres (seq r f) = (case r of Inl (e, c) \<Rightarrow> c | Inr s \<Rightarrow> cres (f s))"
  by (simp add: seq_def split: sum.splits prod.splits)

lemma respond_io_hinv:
  assumes "hinv m c" and "list_all (enc_ok m) req"
  shows "hinv m (cres (respond_io m alive req resp c))"
proof (cases "say m [[Text resp]] (c\<lparr>out := out c @ [Text msg_sending, Text [10]]\<rparr>)")
  case (Inl r)
  then show ?thesis using assms(1) hs_say_Inl [of m "[[Text resp]]"]
    by (cases r) (simp add: respond_io_def valid_enc_ok)
next
  case (Inr c2)
  then have "list_all (enc_ok m) resp" and "hs c2 = hs c" using say_Inr_ok hs_say_Inr by fastforce+
  with Inr assms show ?thesis
    by (simp add: respond_io_def valid_enc_ok record_io_eq record_hist_def hist_chars_add)
qed


lemma send_then_record_io_hinv:
  "hinv m c \<Longrightarrow> list_all (enc_ok m) req \<Longrightarrow> hinv m (cres (send_then_record_io m alive req resp_400 c))"
  using hist_send_text [of alive resp_400 "hs c"]
  by (auto simp: send_then_record_io_def lift_def record_io_eq record_hist_def result_state_def valid_enc_ok
      hist_chars_add split: sum.splits prod.splits)

lemma send_pdf_io_hinv:
  "hinv m c \<Longrightarrow> list_all (enc_ok m) req \<Longrightarrow> hinv m (cres (send_pdf_io m alive req body c))"
  using hist_send_text [of alive "pdf_header body" "hs c"]
  by (auto simp: send_pdf_io_def lift_def sendall_def record_io_eq record_hist_def close_sock_def
      result_state_def valid_enc_ok hist_chars_add split: sum.splits prod.splits)

lemma create_group_page_io_hs:
  "create_group_page_io m cfg fs c = Inr (b, c') \<Longrightarrow> hs c' = hs c"
  "create_group_page_io m cfg fs c = Inl (e, c') \<Longrightarrow> hs c' = hs c"
  by (auto simp: create_group_page_io_def say_def seq_def Let_def split: sum.splits prod.splits)

lemma serve_pdf_io_hs:
  "serve_pdf_io m cfg fs p c = Inr (x, c') \<Longrightarrow> hs c' = hs c"
  "serve_pdf_io m cfg fs p c = Inl (e, c') \<Longrightarrow> hs c' = hs c"
  by (auto simp: serve_pdf_io_def seq_def Let_def split: sum.splits prod.splits if_splits
      dest: hs_say_Inr hs_say_Inl)

text \<open>An invariant of the connection state that every step of the dispatch keeps is
  kept by the dispatch (lines 47-122).\<close>

lemma dispatch_io_inv:
  assumes Q: "Q c"
    and say: "\<And>args c. Q c \<Longrightarrow> Q (cres (say m args c))"
    and fav: "\<And>c. Q c \<Longrightarrow> Q (cres (lift (send_text alive resp_favicon) c))"
    and bad: "\<And>c. Q c \<Longrightarrow> Q (cres (send_then_record_io m alive req resp_400 c))"
    and resp: "\<And>resp c. Q c \<Longrightarrow> Q (cres (respond_io m alive req resp c))"
    and pdf: "\<And>body c. Q c \<Longrightarrow> Q (cres (send_pdf_io m alive req body c))"
    and cgp: "\<And>c r. Q c \<Longrightarrow> create_group_page_io m cfg fs c = Inr r \<Longrightarrow> Q (snd r)"
    and cgp_err: "\<And>c r. Q c \<Longrightarrow> create_group_page_io m cfg fs c = Inl r \<Longrightarrow> Q (snd r)"
    and spdf: "\<And>p c r. Q c \<Longrightarrow> serve_pdf_io m cfg fs p c = Inr r \<Longrightarrow> Q (snd r)"
    and spdf_err: "\<And>p c r. Q c \<Longrightarrow> serve_pdf_io m cfg fs p c = Inl r \<Longrightarrow> Q (snd r)"
  shows "Q (cres (dispatch_io m cfg fs alive req c))"
proof (cases "parse_request_line req")
  case None
  then show ?thesis using bad [OF Q] by (simp add: dispatch_io_def)
next
  case (Some mpv)
  obtain mt p v where mpv: "mpv = (mt, p, v)" by (cases mpv) auto
  have idx: "Q (cres (case create_group_page_io m cfg fs c of
                 Inl r \<Rightarrow> Inl r | Inr (body, c1) \<Rightarrow> respond_io m alive req (index_response body) c1))"
  proof (cases "create_group_page_io m cfg fs c")
    case (Inl r)
    then show ?thesis using cgp_err [OF Q Inl] by (cases r) simp
  next
    case (Inr r)
    then show ?thesis using resp [OF cgp [OF Q Inr]] by (cases r) simp
  qed
  have rep: "Q (cres (case serve_pdf_io m cfg fs p c of
                 Inl r \<Rightarrow> Inl r
               | Inr (None, c1) \<Rightarrow> respond_io m alive req resp_404 c1
               | Inr (Some body, c1) \<Rightarrow>
                   if body \<noteq> [] then send_pdf_io m alive req body c1 else respond_io m alive req resp_404 c1))"
  proof (cases "serve_pdf_io m cfg fs p c")
    case (Inl r)
    then show ?thesis using spdf_err [OF Q Inl] by (cases r) simp
  next
    case (Inr r)
    then show ?thesis using resp [OF spdf [OF Q Inr]] pdf [OF spdf [OF Q Inr]]
      by (cases r) (simp split: option.splits)
  qed
  have other: "Q (cres (seq (say m [[Text msg_sending]] c) (\<lambda>c3. Inl (UnboundLocalError, c3))))"
    using say [OF Q, of "[[Text msg_sending]]"] by (cases "say m [[Text msg_sending]] c") auto
  show ?thesis
    using Some mpv idx rep other fav [OF Q] resp [OF Q] by (simp add: dispatch_io_def)
qed

lemma dispatch_io_hinv:
  assumes "hinv m c" and "list_all (enc_ok m) req"
  shows "hinv m (cres (dispatch_io m cfg fs alive req c))"
  using assms(1)
proof (rule dispatch_io_inv)
  show "hinv m (cres (respond_io m alive req resp c'))" if "hinv m c'" for resp c'
    using that assms(2) by (rule respond_io_hinv)
qed (use assms(2) create_group_page_io_hs serve_pdf_io_hs in
     \<open>auto simp: send_then_record_io_hinv send_pdf_io_hinv intro: prod.exhaust\<close>)

lemma handle_request_io_hinv:
  "hinv m c \<Longrightarrow> hinv m (cres (handle_request_io m cfg fs alive data c))"
  by (cases "utf8_decode (take 1024 data)")
     (simp_all add: handle_request_io_def say_ok valid_enc_ok dispatch_io_hinv decoded_valid)

lemma enc_ok_Strict: "enc_ok Strict = valid_cp"
  by (simp add: enc_ok_def fun_eq_iff)

text \<open>Whatever the file names, the handler records only text that standard output has
  accepted: the request, which it printed (line 44), and a response it printed (line
  116) or one of the fixed ones.\<close>

lemma handle_client_io_hist_chars:
  assumes "hist_chars (enc_ok m) h"
  shows "hist_chars (enc_ok m) (hist (hs (handle_client_io m cfg fs alive data h w)))"
proof -
  let ?c0 = "\<lparr>hs = init_hstate h, out = w\<rparr>"
  have "hinv m (cres (handle_request_io m cfg fs alive data ?c0))"
    using assms by (intro handle_request_io_hinv) (simp add: init_hstate_def)
  then show ?thesis
    by (auto simp: handle_client_io_def Let_def say_ok valid_enc_ok close_sock_def
        split: sum.splits prod.splits)
qed


subsection \<open>Lemmas: the console output only grows\<close>

lemma cres_seq_inv: "Q (cres r) \<Longrightarrow> (\<And>s. Q s \<Longrightarrow> Q (cres (f s))) \<Longrightarrow> Q (cres (seq r f))"
  by (cases r) (auto simp: seq_def)

lemma grows_seq:
  "prefix w (out (cres r)) \<Longrightarrow> (\<And>s. prefix w (out s) \<Longrightarrow> prefix w (out (cres (f s)))) \<Longrightarrow>
   prefix w (out (cres (seq r f)))"
  by (rule cres_seq_inv)

lemma out_lift [simp]: "out (cres (lift f c)) = out c"
  by (simp add: lift_def cres_def split: sum.splits prod.splits)

lemma write_args_grows: "prefix w (case write_args m as w of Inl (e, w') \<Rightarrow> w' | Inr w' \<Rightarrow> w')"
proof (induction as arbitrary: w)
  case (Cons a as)
  show ?case
  proof (cases "list_all (piece_ok m) a")
    case True
    have "prefix (w @ a) (case write_args m as (w @ a) of Inl (e, w') \<Rightarrow> w' | Inr w' \<Rightarrow> w')"
      by (rule Cons.IH)
    then show ?thesis using True prefix_order.trans [of w "w @ a"] by simp
  qed simp
qed simp

lemma say_keeps: "hs (cres (say m args c)) = hs c \<and> prefix (out c) (out (cres (say m args c)))"
  using write_args_grows [of "out c" m "print_writes args"]
  by (simp add: say_def py_print_def cres_def split: sum.splits prod.splits)

lemma say_grows: "prefix w (out c) \<Longrightarrow> prefix w (out (cres (say m args c)))"
  using say_keeps [of m args c] by (auto intro: prefix_order.trans)

lemma record_io_grows: "prefix w (out c) \<Longrightarrow> prefix w (out (cres (record_io m q r c)))"
  by (simp add: record_io_eq)

lemma respond_io_grows: "prefix w (out c) \<Longrightarrow> prefix w (out (cres (respond_io m alive req resp c)))"
  unfolding respond_io_def by (intro grows_seq say_grows record_io_grows) simp_all

lemma send_then_record_io_grows:
  "prefix w (out c) \<Longrightarrow> prefix w (out (cres (send_then_record_io m alive req resp c)))"
  unfolding send_then_record_io_def by (intro grows_seq record_io_grows) simp_all

lemma send_pdf_io_grows: "prefix w (out c) \<Longrightarrow> prefix w (out (cres (send_pdf_io m alive req body c)))"
  unfolding send_pdf_io_def by (intro grows_seq record_io_grows) simp_all

lemma cres2_simps [simp]: "cres2 (Inl (e, c)) = c" "cres2 (Inr (a, c)) = c"
  by (simp_all add: cres2_def)

lemma cres2_seq_inv: "Q (cres r) \<Longrightarrow> (\<And>s. Q s \<Longrightarrow> Q (cres2 (f s))) \<Longrightarrow> Q (cres2 (seq r f))"
  by (cases r) (auto simp: seq_def cres_def cres2_def)

lemma create_group_page_io_keeps:
  assumes "hs c = h0" and "prefix w0 (out c)"
  shows "hs (cres2 (create_group_page_io m cfg fs c)) = h0 \<and> prefix w0 (out (cres2 (create_group_page_io m cfg fs c)))"
proof (cases "list_reports cfg fs")
  case (Inl e)
  then show ?thesis using assms by (simp add: create_group_page_io_def cres2_def)
next
  case (Inr rs)
  let ?Q = "\<lambda>c. hs c = h0 \<and> prefix w0 (out c)"
  have say: "?Q (cres (say m args c')) " if "?Q c'" for args c'
    using that say_keeps [of m args c'] by (auto intro: prefix_order.trans)
  have "?Q (cres2 (create_group_page_io m cfg fs c))"
    unfolding create_group_page_io_def Inr sum.case Let_def
    by (intro cres2_seq_inv [where Q = ?Q] say) (simp_all add: assms)
  then show ?thesis .
qed

lemma serve_pdf_io_keeps:
  assumes "hs c = h0" and "prefix w0 (out c)"
  shows "hs (cres2 (serve_pdf_io m cfg fs p c)) = h0 \<and> prefix w0 (out (cres2 (serve_pdf_io m cfg fs p c)))"
proof -
  let ?Q = "\<lambda>c. hs c = h0 \<and> prefix w0 (out c)"
  let ?fp = "path_join (base_dir cfg) (lstrip_char 47 p)"
  have q: "?Q c" using assms by simp
  have s: "?Q (cres (say m args c))" for args
    using q say_keeps [of m args c] by (auto intro: prefix_order.trans)
  have "?Q (cres2 (seq (say m [[Text (msg_pdf_missing @ ?fp)]] c) (\<lambda>c1. Inr (None, c1))))"
    by (rule cres2_seq_inv [where Q = ?Q, OF s]) simp
  then show ?thesis using q
    by (auto simp: serve_pdf_io_def Let_def split: sum.splits)
qed

lemma dispatch_io_grows:
  "prefix w (out c) \<Longrightarrow> prefix w (out (cres (dispatch_io m cfg fs alive req c)))"
proof (rule dispatch_io_inv [where Q = "\<lambda>c. prefix w (out c)"])
  show "prefix w (out (snd r))" if "prefix w (out c')" "create_group_page_io m cfg fs c' = Inr r" for c' r
    using create_group_page_io_keeps [OF refl that(1), of m cfg fs] that(2) by (cases r) simp
  show "prefix w (out (snd r))" if "prefix w (out c')" "create_group_page_io m cfg fs c' = Inl r" for c' r
    using create_group_page_io_keeps [OF refl that(1), of m cfg fs] that(2) by (cases r) simp
  show "prefix w (out (snd r))" if "prefix w (out c')" "serve_pdf_io m cfg fs p c' = Inr r" for p c' r
    using serve_pdf_io_keeps [OF refl that(1), of m cfg fs p] that(2) by (cases r) simp
  show "prefix w (out (snd r))" if "prefix w (out c')" "serve_pdf_io m cfg fs p c' = Inl r" for p c' r
    using serve_pdf_io_keeps [OF refl that(1), of m cfg fs p] that(2) by (cases r) simp
qed (simp_all add: say_grows respond_io_grows send_then_record_io_grows send_pdf_io_grows)

text \<open>After the two prints of lines 43-44, the output only grows: the caught
  exception's print and the \<open>finally\<close> add to it.\<close>

lemma handle_client_io_after:
  assumes "prefix w' (out (cres (handle_request_io m cfg fs alive data \<lparr>hs = init_hstate h, out = w\<rparr>)))"
  shows "prefix w' (out (handle_client_io m cfg fs alive data h w))"
proof (cases "handle_request_io m cfg fs alive data \<lparr>hs = init_hstate h, out = w\<rparr>")
  case (Inl r)
  obtain e c where r: "r = (e, c)" by (cases r)
  let ?c' = "c\<lparr>hs := (hs c)\<lparr>logged := Some e\<rparr>\<rparr>"
  have "prefix w' (out (cres (say m [[Text msg_error, Exc_text e]] ?c')))"
    using assms Inl r by (intro say_grows) simp
  then show ?thesis using Inl r
    by (simp add: handle_client_io_def Let_def close_sock_def cres_def split: sum.splits prod.splits)
next
  case (Inr c)
  then show ?thesis using assms by (simp add: handle_client_io_def Let_def close_sock_def)
qed

lemma handle_client_io_grows: "prefix w (out (handle_client_io m cfg fs alive data h w))"
  by (rule handle_client_io_after)
     (auto simp: handle_request_io_def say_ok valid_enc_ok dispatch_io_grows decoded_valid split: option.splits)

lemma say_second_fails:
  "list_all (enc_ok m) a \<Longrightarrow> \<not> list_all (enc_ok m) t \<Longrightarrow>
   say m [[Text a], [Text t]] c = Inl (UnicodeEncodeError, c\<lparr>out := out c @ [Text a, Text [32]]\<rparr>)"
  by (simp add: say_def py_print_def)

lemma report_item_bad: "r \<in> set rs \<Longrightarrow> \<not> list_all P r \<Longrightarrow> \<not> list_all P (concat (map report_item rs))"
  by (auto simp: report_item_def list_all_iff)

text \<open>C24: With a strict standard output, GET / while a report name is not valid Unicode raises UnicodeEncodeError at the debugging print of line 176: nothing is recorded or sent, and the socket is closed.\<close>

theorem strict_index_bad_name:
  assumes "utf8_decode (take 1024 data) = Some req"
    and "parse_request_line req = Some (ascii ''GET'', ascii ''/'', v)"
    and "list_reports cfg fs = Inr rs" and "r \<in> set rs" and "\<not> list_all valid_cp r"
  shows "handle_client_io Strict cfg fs alive data h w =
           \<lparr>hs = \<lparr>hist = h, sent = [Close], closed = True, logged = Some UnicodeEncodeError\<rparr>,
            out = w @ [Text msg_received, Peer, Text [58], Text [10], Text req, Text [10],
                       Text (ascii ''DEBUG: reports =''), Text [32], Repr_names rs, Text [10],
                       Text (ascii ''DEBUG: reports_html =''), Text [32],
                       Text msg_error, Exc_text UnicodeEncodeError, Text [10]]\<rparr>"
proof -
  have "list_all valid_cp req" using assms(1) by (rule decoded_valid)
  moreover have "\<not> list_all (enc_ok Strict) (concat (map report_item rs))"
    using report_item_bad [OF assms(4,5)] by (simp add: enc_ok_Strict)
  ultimately show ?thesis using assms(1-3)
    by (simp add: handle_client_io_def handle_request_io_def dispatch_io_def create_group_page_io_def
        say_ok valid_enc_ok say_second_fails init_hstate_def close_sock_def Let_def ascii_def)
qed

text \<open>C8: Every request that decodes is echoed to standard output as received, newlines included, before anything else the handler prints: the output starts with the line of line 43 and the request text of line 44.\<close>

theorem handle_client_io_echo:
  assumes "utf8_decode (take 1024 data) = Some req"
  shows "prefix (w @ [Text msg_received, Peer, Text [58], Text [10], Text req, Text [10]])
           (out (handle_client_io m cfg fs alive data h w))"
proof (rule handle_client_io_after)
  have "handle_request_io m cfg fs alive data \<lparr>hs = init_hstate h, out = w\<rparr> =
        dispatch_io m cfg fs alive req
          \<lparr>hs = init_hstate h, out = w @ [Text msg_received, Peer, Text [58], Text [10], Text req, Text [10]]\<rparr>"
    using assms decoded_valid [OF assms] by (simp add: handle_request_io_def say_ok valid_enc_ok)
  then show "prefix (w @ [Text msg_received, Peer, Text [58], Text [10], Text req, Text [10]])
      (out (cres (handle_request_io m cfg fs alive data \<lparr>hs = init_hstate h, out = w\<rparr>)))"
    by (simp add: dispatch_io_grows)
qed

text \<open>C3: With at most 50 entries in the history, the size that add_to_request_history prints (line 148) is the new length of the history, one more than before but never more than 50.\<close>

theorem record_io_size:
  assumes "hist_inv (hist (hs c))"
  shows "record_io m q r c =
           Inr (c\<lparr>hs := record_hist q r (hs c),
                  out := out c @ [Text (msg_added @ str_of_nat (min (Suc (length (hist (hs c)))) history_cap)),
                                  Text [10]]\<rparr>)"
  using assms by (simp add: record_io_def valid_enc_ok record_hist_def length_add_to_request_history hist_inv_def)

end
