(* ===== verification/Console_Server.thy ===== *)
theory Console_Server
  imports Console
begin

text \<open>
  The listener of src/server.py with its prints: \<open>create_server_socket\<close> (lines
  16-34, prints of lines 31 and 33), the accept loop of \<open>start\<close> (prints of lines
  268 and 278) and the main block, each connection handled by \<open>handle_client_io\<close>
  of theory \<open>Console\<close>. A run refines the print-free run of theory \<open>Server\<close>
  whenever no print raises, and with a strict standard output its history holds only
  valid Unicode.
\<close>

text \<open>The output after a print whose failure leads where its success does.\<close>

definition print_out :: "stdout_errors \<Rightarrow> arg list \<Rightarrow> piece list \<Rightarrow> piece list" where
  "print_out m args w = (case py_print m args w of Inl (e, w1) \<Rightarrow> w1 | Inr w1 \<Rightarrow> w1)"

text \<open>\<open>create_server_socket\<close> (lines 16-34): once the socket listens, line 31 prints
  the address; an exception of that print is caught by the same \<open>except\<close>, which
  prints it (line 33) and calls \<open>exit(1)\<close>. Should the print of line 33 raise, the
  exception ends the process with status 1 as well.\<close>

definition create_server_socket_io ::
  "stdout_errors \<Rightarrow> config \<Rightarrow> bool \<Rightarrow> server \<Rightarrow> piece list \<Rightarrow> server \<times> piece list" where
  "create_server_socket_io m cfg bind_ok sv w =
     (if bind_ok then
        (case py_print m [[Text (msg_started @ host cfg @ [58] @ str_of_nat (port cfg))]] w of
           Inr w1 \<Rightarrow> (sv\<lparr>listening := True\<rparr>, w1)
         | Inl (e, w1) \<Rightarrow>
             (sv\<lparr>listening := True, status := Exited 1\<rparr>, print_out m [[Text msg_socket_error, Exc_text e]] w1))
      else (sv\<lparr>status := Exited 1\<rparr>, print_out m [[Text msg_socket_error, Os_error_text]] w))"

text \<open>The loop of \<open>start\<close> (lines 264-278): line 268 prints the peer before the
  handler runs; line 278 prints on \<open>KeyboardInterrupt\<close>. An exception of either
  print leaves the loop like an exception of \<open>accept()\<close>.\<close>

fun accept_loop_io ::
  "stdout_errors \<Rightarrow> config \<Rightarrow> node \<Rightarrow> arrival list \<Rightarrow> server \<Rightarrow> piece list \<Rightarrow> server \<times> piece list" where
  "accept_loop_io m cfg fs [] sv w = (sv, w)"
| "accept_loop_io m cfg fs (Conn alive data # as) sv w =
     (case py_print m [[Text msg_connection, Peer]] w of
        Inl (e, w1) \<Rightarrow> (sv\<lparr>status := Crashed e\<rparr>, w1)
      | Inr w1 \<Rightarrow>
          (let c = handle_client_io m cfg fs alive data (request_history sv) w1
           in accept_loop_io m cfg fs as (sv\<lparr>request_history := hist (hs c), handled := handled sv @ [hs c]\<rparr>)
                (out c)))"
| "accept_loop_io m cfg fs (Interrupt # as) sv w =
     (case py_print m [[Text msg_stopped]] w of
        Inl (e, w1) \<Rightarrow> (sv\<lparr>status := Crashed e\<rparr>, w1)
      | Inr w1 \<Rightarrow> (sv\<lparr>status := Stopped\<rparr>, w1))"
| "accept_loop_io m cfg fs (AcceptError e # as) sv w = (sv\<lparr>status := Crashed e\<rparr>, w)"

definition start_io ::
  "stdout_errors \<Rightarrow> config \<Rightarrow> node \<Rightarrow> bool \<Rightarrow> arrival list \<Rightarrow> server \<Rightarrow> piece list \<Rightarrow> server \<times> piece list" where
  "start_io m cfg fs bind_ok as sv w =
     (case create_server_socket_io m cfg bind_ok sv w of
        (sv1, w1) \<Rightarrow>
          if status sv1 \<noteq> Running then (sv1, w1)
          else (case accept_loop_io m cfg fs as sv1 w1 of (sv2, w2) \<Rightarrow> (close_listener sv2, w2)))"

definition main_io :: "stdout_errors \<Rightarrow> config \<Rightarrow> node \<Rightarrow> bool \<Rightarrow> arrival list \<Rightarrow> server \<times> piece list" where
  "main_io m cfg fs bind_ok as =
     (case list_reports cfg fs of
        Inl e \<Rightarrow> ((init_server [])\<lparr>status := Crashed e\<rparr>, [])
      | Inr _ \<Rightarrow> start_io m cfg fs bind_ok as (init_server []) [])"

subsection \<open>Lemmas: the listener with prints\<close>

lemma py_print_ok:
  "list_all (list_all (piece_ok m)) args \<Longrightarrow> py_print m args w = Inr (w @ concat (print_writes args))"
  by (simp add: py_print_def write_args_ok)

lemma console_ok_handle_client:
  "console_ok m cfg fs h \<Longrightarrow> console_ok m cfg fs (hist (handle_client cfg fs alive data h))"
  using hist_chars_handle_client [of "enc_ok m" h fs cfg alive data] enc_ok_valid
  by (simp add: console_ok_def)

lemma accept_loop_io_refines:
  "console_ok m cfg fs (request_history sv) \<Longrightarrow> fst (accept_loop_io m cfg fs as sv w) = accept_loop cfg fs as sv"
proof (induction m cfg fs as sv w rule: accept_loop_io.induct)
  case (2 m cfg fs alive data as sv w)
  let ?w1 = "w @ concat (print_writes [[Text msg_connection, Peer]])"
  let ?c = "handle_client_io m cfg fs alive data (request_history sv) ?w1"
  have hc: "hs ?c = handle_client cfg fs alive data (request_history sv)"
    using "2.prems" by (rule handle_client_io_refines)
  have "console_ok m cfg fs (hist (hs ?c))"
    unfolding hc using "2.prems" by (rule console_ok_handle_client)
  then show ?case using "2.IH" [of ?w1 ?c] hc by (simp add: py_print_ok valid_enc_ok Let_def)
qed (simp_all add: py_print_ok valid_enc_ok)

lemma console_ok_init: "list_all (enc_ok m) (base_dir cfg) \<Longrightarrow> all_names (list_all (enc_ok m)) fs \<Longrightarrow>
  console_ok m cfg fs (request_history (init_server []))"
  by (simp add: console_ok_def hist_chars_def init_server_def)

lemma accept_loop_io_hist_chars:
  "hist_chars (enc_ok m) (request_history sv) \<Longrightarrow>
   hist_chars (enc_ok m) (request_history (fst (accept_loop_io m cfg fs as sv w)))"
proof (induction m cfg fs as sv w rule: accept_loop_io.induct)
  case (2 m cfg fs alive data as sv w)
  then show ?case using handle_client_io_hist_chars
    by (auto simp: Let_def split: sum.splits prod.splits)
qed (simp_all split: sum.splits prod.splits)


lemma request_history_close_listener [simp]: "request_history (close_listener sv) = request_history sv"
  by (simp add: close_listener_def)

lemma main_io_hist_chars: "hist_chars (enc_ok m) (request_history (fst (main_io m cfg fs bind_ok as)))"
proof -
  let ?sv1 = "fst (create_server_socket_io m cfg bind_ok (init_server []) [])"
  have "hist_chars (enc_ok m) (request_history ?sv1)"
    by (simp add: create_server_socket_io_def init_server_def split: sum.splits prod.splits)
  moreover have "hist_chars (enc_ok m) (request_history (fst (accept_loop_io m cfg fs as ?sv1 w)))" for w
    using calculation by (rule accept_loop_io_hist_chars)
  ultimately show ?thesis
    by (simp add: main_io_def start_io_def init_server_def prod.case_eq_if split: sum.splits)
qed

text \<open>C7: When no print raises (the host, the base directory and every file name encode on standard output), the server with its console output does what the print-free model does: the same history, connections, listener state and exit status.\<close>

theorem main_io_refines:
  assumes "list_all (enc_ok m) (host cfg)" and "list_all (enc_ok m) (base_dir cfg)"
    and "all_names (list_all (enc_ok m)) fs"
  shows "fst (main_io m cfg fs bind_ok as) = main cfg fs bind_ok as"
proof (cases "list_reports cfg fs")
  case (Inr rs)
  let ?w1 = "concat (print_writes [[Text (msg_started @ host cfg @ [58] @ str_of_nat (port cfg))]])"
  have ok: "console_ok m cfg fs (request_history ((init_server [])\<lparr>listening := True\<rparr>))"
    using console_ok_init [OF assms(2,3)] by simp
  show ?thesis
  proof (cases bind_ok)
    case True
    then show ?thesis
      using Inr assms(1) accept_loop_io_refines [OF ok, of as ?w1]
      by (simp add: main_io_def main_def start_io_def start_def create_server_socket_io_def
          create_server_socket_def py_print_ok valid_enc_ok init_server_def prod.case_eq_if)
  next
    case False
    then show ?thesis using Inr
      by (simp add: main_io_def main_def start_io_def start_def create_server_socket_io_def
          create_server_socket_def init_server_def)
  qed
qed (simp add: main_io_def main_def)

text \<open>C22: With a strict standard output, every string in the history of a server run is valid Unicode, whatever the file names: a handler records only text it has printed.\<close>

theorem main_io_strict_valid: "hist_valid (request_history (fst (main_io Strict cfg fs bind_ok as)))"
  using main_io_hist_chars [of Strict cfg fs bind_ok as]
  by (simp add: hist_valid_chars hist_chars_def list_all_iff enc_ok_def)

end
