(* ===== verification/Spec2Isabelle.thy ===== *)
theory Spec2Isabelle
  imports Server Race App Console_Server
begin

text \<open>
  \<^bold>\<open>A verification development of the socket HTTP server of src/server.py.\<close>

  \<^emph>\<open>The program.\<close> Class \<open>HTTPServer\<close> binds a TCP socket
  (\<open>create_server_socket\<close>), accepts connections in \<open>start\<close> and hands each to
  \<open>handle_client\<close> in a new thread. \<open>handle_client\<close> reads one \<open>recv(1024)\<close>,
  decodes it as UTF-8, parses the request line and routes it: \<open>/favicon.ico\<close> (404,
  not recorded), non-GET (405), \<open>GET /\<close> (the index page of \<open>create_group_page\<close>,
  which lists the reports of \<open>list_reports\<close> and the request history),
  \<open>GET /static/reports/...\<close> (the file read by \<open>serve_pdf\<close>, or 404), a malformed
  request line (400). Every exchange but the favicon one is recorded by
  \<open>add_to_request_history\<close> in a list capped at 50 entries shared by all threads.
  src/app.py is a separate Flask front-end whose index view lists the same reports
  directory.

  \<^emph>\<open>Theories.\<close>
  \<^item> \<open>Prelude\<close>: Python \<open>str\<close> as code point lists (\<open>ustr\<close>), \<open>bytes\<close> as lists of
    \<open>8 word\<close>, the exceptions the code raises (\<open>exc\<close>), \<open>split_on\<close>.
  \<^item> \<open>History\<close>: \<open>add_to_request_history\<close> (lines 132-148) and its specification
    \<open>last_n 50\<close> of all recorded entries (\<open>record_all_last_n\<close>).
  \<^item> \<open>Pystr\<close>: the \<open>str\<close> methods the handler calls (\<open>split()\<close> with CPython's
    whitespace set, \<open>strip\<close>, \<open>startswith\<close>, \<open>endswith\<close>, \<open>lstrip('/')\<close>,
    \<open>str(n)\<close>) and \<open>html.escape\<close> as its five \<open>replace\<close> calls, with the one-pass
    form and its inverse.
  \<^item> \<open>Utf8\<close>: CPython's UTF-8 codec: strict decoding (\<open>utf8_decode\<close>), decoding with
    \<open>errors='replace'\<close>, and encoding, which fails on surrogates (\<open>py_encode\<close>).
  \<^item> \<open>Unquote\<close>: \<open>urllib.parse.unquote\<close> as CPython writes it, and its scanning form.
  \<^item> \<open>Fsys\<close>: the file system as a tree, with POSIX resolution of \<open>open\<close> and
    \<open>os.listdir\<close> (\<open>..\<close>, \<open>.\<close>, ENOENT, ENOTDIR, EISDIR) and \<open>os.path.join\<close>.
  \<^item> \<open>Page\<close>: \<open>list_reports\<close> and \<open>create_group_page\<close> (lines 160-257); the
    template is copied character for character (\<open>page_part1\<close>..\<open>page_part3\<close>,
    \<open>entry_part1\<close>..\<open>entry_part3\<close>), and \<open>read_entries\<close> reads the history back
    from a page.
  \<^item> \<open>Handler\<close>: \<open>handle_client\<close> (lines 36-130) and \<open>serve_pdf\<close> (150-158) on a
    state \<open>hstate\<close> of history, socket trace (\<open>Send\<close>/\<open>Close\<close>), closed flag and
    logged exception. \<open>handle_request\<close> is the body of the outer \<open>try\<close> and returns
    \<open>Inl (e, s)\<close> for an exception \<open>e\<close> raised in state \<open>s\<close>; \<open>handle_client\<close> adds
    the \<open>except\<close> and the \<open>finally\<close>. The peer is either alive or gone (then every
    \<open>sendall\<close> raises).
  \<^item> \<open>Validity\<close>: which strings can be encoded: the type invariant \<open>hist_valid\<close>
    (every recorded string is valid Unicode), file names as \<open>os.listdir\<close> returns
    them (\<open>names_valid\<close>), and when \<open>UnicodeEncodeError\<close> can happen.
  \<^item> \<open>Server\<close>: \<open>__init__\<close>, \<open>create_server_socket\<close>, \<open>start\<close> and the main
    block. The infinite accept loop is driven by a finite list of \<open>accept()\<close>
    outcomes (connection, interrupt, exception); a list that runs out leaves it running.
    Handler threads run one after another here, so the lemmas of this theory on the
    history of a whole run (the cap of 50, arrival order) hold for that schedule only.
  \<^item> \<open>Race\<close>: the statement-level interleavings of \<open>add_to_request_history\<close> by
    several threads (\<open>race_step\<close>) and the locked variant the specification asks for
    (\<open>locked_step\<close>), as inductive step relations proved about by rule induction
    over their reflexive transitive closure; \<open>sys_step\<close> adds
    the reverse iteration of \<open>create_group_page\<close> over the history to those steps.
  \<^item> \<open>Console\<close>: every \<open>print\<close> of the handler, the recorder, the page builder
    and the PDF server (lines 43-44, 115-116, 125, 148, 157, 171, 176, 179), as writes
    to a standard output that encodes UTF-8 with the \<open>strict\<close> or
    \<open>surrogateescape\<close> error handler and raises \<open>UnicodeEncodeError\<close> on what it
    cannot encode. \<open>handle_client_io\<close> is the handler with its prints, on a state
    \<open>cstate\<close> of the connection state of \<open>Handler\<close> and the output; it refines
    \<open>handle_client\<close>, and the output only grows (\<open>dispatch_io_inv\<close> carries every
    invariant of the dispatch).
  \<^item> \<open>Console_Server\<close>: the listener with its prints (lines 31, 33, 268, 278),
    \<open>accept_loop_io\<close> and \<open>main_io\<close>, refining \<open>Server\<close>.
  \<^item> \<open>App\<close>: the report list of the Flask view \<open>index\<close> of src/app.py.
  \<^item> This theory: example inputs (a file system with \<open>/srv/static/reports\<close>, requests)
    and a witness for every claim, which applies it to those inputs.

  \<^emph>\<open>What is proved.\<close> Every accepted socket is closed exactly once on every path
  (C1); with k handlers racing on the history, it never exceeds 49 + k entries (C2),
  a bound some interleaving reaches (C31), and entries leave it only at the oldest
  end, each call adding its entry at most once (C4); under a lock it stays within 50
  (C29); the size one call of the recorder prints is its new length, never above 50
  (C3); favicon requests never reach it (C5); with valid file
  names no handler fails to encode its response (C6), because every recorded string
  stays valid Unicode (C21, a type invariant). Whenever no \<open>print\<close> raises, the
  server with its console output does what the print-free model does (C7, a
  refinement); every decoded request is echoed first (C8); with a strict standard
  output the history stays valid whatever the file names (C22). The response of
  every route, errors included (C9-C17); the PDF route serves the file of the
  reports directory (C19) and leaves it through \<open>..\<close> (C20); the history section
  of the page reads back exactly, so escaping prevents injection (C25); the page
  lists the reports sorted, then the history most recent first (C26, C27); the
  strict decoder of line 40 decodes whatever \<open>str.encode\<close> produces (C33); without concurrent writers the page's loop reads the
  history most recent first (C34); the listening socket is closed once on loop exit
  (C36); round trip and equivalence of the percent-decoder (C37, C38); the Flask
  view passes the .pdf names in directory order where the server sorts them (C39).
  Findings proved as theorems: the index Content-Length is \<open>str(len(body))\<close>, the
  number of characters, fewer than the bytes sent (C18); a malformed request to a
  peer that has gone is not recorded, because the 400 branch sends first (C32); an empty PDF is a 404 (C14); undecodable requests, also those cut inside a
  character at byte 1024, and unmatched GET paths get no response (C15-C17); a
  report name that is not UTF-8 makes \<open>GET /\<close> fail: when standard output accepts
  it, after recording the page, which poisons the history (C23), and with a strict
  one at the debugging \<open>print\<close> of line 176, so the index page is unavailable while
  the file exists (C24); the unescaped echo of C8 lets a client forge console lines,
  such as a history size of 99 (its witness); without a lock two threads can leave
  51 entries (C28) and the excess stays (C30); a page rendered while a handler
  records can show an entry twice and lose another (C35); the Flask view raises on a
  missing reports folder (C40). Further lemmas (the cap of 50 and the arrival order
  of the history when handlers run one after another, the PDF Content-Length is the
  file's byte length, a bind failure exits with status 1, the page is encodable
  exactly when its parts are) are kept without a claim.

  \<^emph>\<open>Bounds.\<close> The history cap is the code's 50 (\<open>history_cap\<close>); the request is
  the first 1024 bytes the client sent (\<open>take 1024\<close>), the most one \<open>recv(1024)\<close>
  returns. No fuel is used: every loop of the model is structural recursion over its
  input, or a \<open>function\<close> with a termination proof (\<open>py_split\<close>, \<open>read_entries\<close>).

  \<^emph>\<open>Not modelled.\<close> The exact characters of \<open>str(client_address)\<close>,
  \<open>repr\<close> of the name list and \<open>str(e)\<close> in the console output (symbolic pieces,
  all encodable); the standard error stream; a \<open>recv\<close> that returns fewer bytes
  than were sent, and partial sends; socket options and the listen backlog; symbolic
  links and permissions; exceptions raised by thread creation; interleavings of
  threads on anything but the history (the only state they share) and of their
  console output; Flask itself (\<open>Flask(__name__)\<close>, the routing decorator and
  \<open>app.run(debug=True)\<close> of src/app.py, which only start the library's server) and
  the template the view renders, which is not in the repository. Every other line of
  src/server.py and src/app.py is modelled (imports and blank lines aside).
\<close>

definition ex_pdf :: bytes where "ex_pdf = [37, 80, 68, 70]"

definition ex_fs :: node where
  "ex_fs = Dir [(ascii ''srv'', Dir [
      (ascii ''static'', Dir [(ascii ''reports'', Dir [
          (ascii ''b.pdf'', File ex_pdf), (ascii ''notes.txt'', File []),
          (ascii ''a.pdf'', File ex_pdf), (ascii ''empty.pdf'', File [])])]),
      (ascii ''secret.pdf'', File [115])])]"

definition ex_fs_bare :: node where
  "ex_fs_bare = Dir [(ascii ''srv'', Dir [(ascii ''static'', Dir [])])]"

definition ex_bad_name :: ustr where
  "ex_bad_name = [56575] @ ascii ''.pdf''"

definition ex_fs_bad :: node where
  "ex_fs_bad = Dir [(ascii ''srv'', Dir [(ascii ''static'', Dir [(ascii ''reports'', Dir [(ex_bad_name, File ex_pdf)])])])]"

definition ex_hist :: "entry list" where
  "ex_hist = map (\<lambda>n. \<lparr>request = str_of_nat n, response = []\<rparr>) [0..<50]"

definition ex_cfg :: config where
  "ex_cfg = \<lparr>host = ascii ''0.0.0.0'', port = 3000, base_dir = ascii ''/srv''\<rparr>"

definition req_post :: ustr where "req_post = ascii ''POST /x HTTP/1.1'' @ crlf @ crlf"
definition req_blank :: ustr where "req_blank = crlf"
definition req_favicon :: ustr where "req_favicon = ascii ''GET /favicon.ico HTTP/1.1'' @ crlf"
definition req_index :: ustr where "req_index = ascii ''GET / HTTP/1.1'' @ crlf"
definition req_other :: ustr where "req_other = ascii ''GET /other HTTP/1.1'' @ crlf"
definition req_a :: ustr where "req_a = ascii ''GET /static/reports/a.pdf HTTP/1.1'' @ crlf"
definition req_empty :: ustr where "req_empty = ascii ''GET /static/reports/empty.pdf HTTP/1.1'' @ crlf"
definition req_forged :: ustr where "req_forged = ascii ''GET / HTTP/1.1'' @ [10] @ msg_added @ str_of_nat 99"

definition ex_page :: ustr where
  "ex_page = page_part1 @ concat (map report_item [ascii ''a.pdf'', ascii ''b.pdf'', ascii ''empty.pdf'']) @
     page_part2 @ page_part3"

definition ex_entry :: entry where
  "ex_entry = \<lparr>request = ascii ''GET / HTTP/1.1'', response = ascii ''HTTP/1.1 200 OK''\<rparr>"

definition ex_bad_page :: ustr where
  "ex_bad_page = page_part1 @ report_item ex_bad_name @ page_part2 @ page_part3"

lemmas ex_reqs = req_post_def req_blank_def req_favicon_def req_index_def req_other_def req_a_def req_empty_def

lemma ex_decode:
  "utf8_decode (take 1024 (utf8_encode req_post)) = Some req_post"
  "utf8_decode (take 1024 (utf8_encode req_blank)) = Some req_blank"
  "utf8_decode (take 1024 (utf8_encode req_favicon)) = Some req_favicon"
  "utf8_decode (take 1024 (utf8_encode req_index)) = Some req_index"
  "utf8_decode (take 1024 (utf8_encode req_other)) = Some req_other"
  "utf8_decode (take 1024 (utf8_encode req_a)) = Some req_a"
  "utf8_decode (take 1024 (utf8_encode req_empty)) = Some req_empty"
  by (rule decode_ascii_request; simp add: ex_reqs ascii_def)+

lemma ex_parse_post:
  "parse_request_line req_post = Some (ascii ''POST'', ascii ''/x'', ascii ''HTTP/1.1'')"
  using parse_request_line_words [of req_post "ascii ''POST''" "ascii ''/x''" "ascii ''HTTP/1.1''" "[13]"]
  by (simp add: ex_reqs first_line_def ascii_def is_space_def unquote_def)

lemma ex_parse_favicon:
  "parse_request_line req_favicon = Some (ascii ''GET'', ascii ''/favicon.ico'', ascii ''HTTP/1.1'')"
  using parse_request_line_words [of req_favicon "ascii ''GET''" "ascii ''/favicon.ico''" "ascii ''HTTP/1.1''" "[13]"]
  by (simp add: ex_reqs first_line_def ascii_def is_space_def unquote_def)

lemma ex_parse_index:
  "parse_request_line req_index = Some (ascii ''GET'', ascii ''/'', ascii ''HTTP/1.1'')"
  using parse_request_line_words [of req_index "ascii ''GET''" "ascii ''/''" "ascii ''HTTP/1.1''" "[13]"]
  by (simp add: ex_reqs first_line_def ascii_def is_space_def unquote_def)

lemma ex_parse_other:
  "parse_request_line req_other = Some (ascii ''GET'', ascii ''/other'', ascii ''HTTP/1.1'')"
  using parse_request_line_words [of req_other "ascii ''GET''" "ascii ''/other''" "ascii ''HTTP/1.1''" "[13]"]
  by (simp add: ex_reqs first_line_def ascii_def is_space_def unquote_def)

lemma ex_parse_a:
  "parse_request_line req_a = Some (ascii ''GET'', ascii ''/static/reports/a.pdf'', ascii ''HTTP/1.1'')"
  using parse_request_line_words [of req_a "ascii ''GET''" "ascii ''/static/reports/a.pdf''" "ascii ''HTTP/1.1''" "[13]"]
  by (simp add: ex_reqs first_line_def ascii_def is_space_def unquote_def)

lemma ex_parse_empty:
  "parse_request_line req_empty = Some (ascii ''GET'', ascii ''/static/reports/empty.pdf'', ascii ''HTTP/1.1'')"
  using parse_request_line_words [of req_empty "ascii ''GET''" "ascii ''/static/reports/empty.pdf''" "ascii ''HTTP/1.1''" "[13]"]
  by (simp add: ex_reqs first_line_def ascii_def is_space_def unquote_def)

lemma ex_parse_blank: "parse_request_line req_blank = None"
  by (simp add: parse_request_line_def req_blank_def first_line_def py_strip_def)

lemma ex_paths:
  "ascii ''/x'' \<noteq> ascii ''/favicon.ico''" "ascii ''POST'' \<noteq> ascii ''GET''"
  "ascii ''/other'' \<noteq> ascii ''/favicon.ico''" "ascii ''/other'' \<noteq> ascii ''/''"
  "\<not> startswith (ascii ''/other'') (ascii ''/static/reports/'')"
  "ascii ''/static/reports/a.pdf'' \<noteq> ascii ''/favicon.ico''"
  "ascii ''/static/reports/empty.pdf'' \<noteq> ascii ''/favicon.ico''"
  "startswith (ascii ''/static/reports/a.pdf'') (ascii ''/static/reports/'')"
  "startswith (ascii ''/static/reports/empty.pdf'') (ascii ''/static/reports/'')"
  by (simp_all add: ascii_def)

lemma ex_base: "base_dir ex_cfg = abs_path [ascii ''srv'']"
  by (simp add: ex_cfg_def abs_path_def ascii_def)

lemma ex_serve_a: "serve_pdf ex_cfg ex_fs (ascii ''/static/reports/a.pdf'') = Inr (Some ex_pdf)"
  using reports_file_path [OF ex_base, of "ascii ''a.pdf''"]
    os_read_file [of "[ascii ''srv'', ascii ''static'', ascii ''reports'', ascii ''a.pdf'']" ex_fs ex_pdf]
  by (simp add: serve_pdf_def ex_fs_def good_name_def ascii_def)

lemma ex_serve_empty: "serve_pdf ex_cfg ex_fs (ascii ''/static/reports/empty.pdf'') = Inr (Some [])"
  using reports_file_path [OF ex_base, of "ascii ''empty.pdf''"]
    os_read_file [of "[ascii ''srv'', ascii ''static'', ascii ''reports'', ascii ''empty.pdf'']" ex_fs "[]"]
  by (simp add: serve_pdf_def ex_fs_def good_name_def ascii_def)

theorem handle_client_405_witness:
  "handle_client ex_cfg ex_fs True (utf8_encode req_post) [] =
     \<lparr>hist = add_to_request_history [] req_post resp_405, sent = [Send (utf8_encode resp_405), Close],
      closed = True, logged = None\<rparr>"
  by (rule handle_client_405 [OF ex_decode(1) ex_parse_post ex_paths(1,2)])

theorem handle_client_400_witness:
  "handle_client ex_cfg ex_fs True (utf8_encode req_blank) [] =
     \<lparr>hist = add_to_request_history [] req_blank resp_400, sent = [Send (utf8_encode resp_400), Close],
      closed = True, logged = None\<rparr>"
  by (rule handle_client_400 [OF ex_decode(2) ex_parse_blank])

theorem handle_client_favicon_witness:
  "handle_client ex_cfg ex_fs True (utf8_encode req_favicon) [] =
     \<lparr>hist = [], sent = [Send (utf8_encode resp_favicon), Close], closed = True, logged = None\<rparr>"
  by (rule handle_client_favicon [OF ex_decode(3) ex_parse_favicon refl])

theorem handle_client_pdf_witness:
  "handle_client ex_cfg ex_fs True (utf8_encode req_a) [] =
     \<lparr>hist = add_to_request_history [] req_a pdf_sent,
      sent = [Send (utf8_encode (pdf_header ex_pdf)), Send ex_pdf, Close], closed = True, logged = None\<rparr>"
  by (rule handle_client_pdf [OF ex_decode(6) ex_parse_a ex_paths(6,8) ex_serve_a]) (simp add: ex_pdf_def)

theorem handle_client_pdf_404_witness:
  "handle_client ex_cfg ex_fs True (utf8_encode req_empty) [] =
     \<lparr>hist = add_to_request_history [] req_empty resp_404, sent = [Send (utf8_encode resp_404), Close],
      closed = True, logged = None\<rparr>"
  by (rule handle_client_pdf_404 [OF ex_decode(7) ex_parse_empty ex_paths(7,9)]) (simp add: ex_serve_empty)

theorem handle_client_undecodable_witness:
  "handle_client ex_cfg ex_fs True [255] [] =
     \<lparr>hist = [], sent = [Close], closed = True, logged = Some UnicodeDecodeError\<rparr>"
  by (rule handle_client_undecodable) (simp add: utf8_step_def lead_info_def)

theorem handle_client_unmatched_get_witness:
  "handle_client ex_cfg ex_fs True (utf8_encode req_other) [] =
     \<lparr>hist = [], sent = [Close], closed = True, logged = Some UnboundLocalError\<rparr>"
  by (rule handle_client_unmatched_get [OF ex_decode(5) ex_parse_other ex_paths(3,4,5)])

theorem handle_client_400_dead_witness:
  "handle_client ex_cfg ex_fs False (utf8_encode req_blank) [] =
     \<lparr>hist = [], sent = [Close], closed = True, logged = Some ConnectionError\<rparr>"
  by (rule handle_client_400_dead [OF ex_decode(2) ex_parse_blank])

theorem serve_pdf_file_witness:
  "serve_pdf ex_cfg ex_fs (ascii ''/static/reports/'' @ ascii ''a.pdf'') = Inr (Some ex_pdf)"
  by (rule serve_pdf_file [OF ex_base]) (simp_all add: ex_fs_def good_name_def ascii_def)

theorem serve_pdf_traversal_witness:
  "serve_pdf ex_cfg ex_fs (ascii ''/static/reports/../../'' @ ascii ''secret.pdf'') = Inr (Some [115])"
  using serve_pdf_traversal [OF ex_base, of "ascii ''secret.pdf''" ex_fs _ "[115]"]
  by (simp add: ex_fs_def good_name_def ascii_def)

lemma ex_listdir:
  "os_listdir ex_fs (reports_path ex_cfg) =
     Inr [ascii ''b.pdf'', ascii ''notes.txt'', ascii ''a.pdf'', ascii ''empty.pdf'']"
  by (simp add: os_listdir_def resolve_def reports_path_def path_join_def ex_fs_def ex_cfg_def ascii_def)

lemma ex_reports: "list_reports ex_cfg ex_fs = Inr [ascii ''a.pdf'', ascii ''b.pdf'', ascii ''empty.pdf'']"
  using ex_listdir by (simp add: list_reports_listing endswith_def ascii_def)

lemma ex_group_page: "create_group_page ex_cfg ex_fs [] = Inr ex_page"
  by (simp add: create_group_page_def ex_reports ex_page_def)

lemma ex_page_valid: "list_all valid_cp ex_page"
  by (simp add: ex_page_def page_part1_def page_part2_def page_part3_def report_item_def valid_cp_def ascii_def)

theorem handle_client_index_witness:
  "handle_client ex_cfg ex_fs True (utf8_encode req_index) [] =
     \<lparr>hist = add_to_request_history [] req_index (index_response ex_page),
      sent = [Send (utf8_encode (index_response ex_page)), Close], closed = True, logged = None\<rparr>"
  by (rule handle_client_index [OF ex_decode(4) ex_parse_index ex_group_page ex_page_valid])

theorem index_content_length_witness:
  "\<exists>hdr. index_response ex_page = hdr @ ascii ''Content-Length: '' @ str_of_nat (length ex_page) @ crlf @ crlf @ ex_page
           \<and> length ex_page < length (utf8_encode ex_page)"
  by (rule index_content_length [OF ex_group_page])

theorem create_group_page_listing_witness:
  "create_group_page ex_cfg ex_fs [] =
     Inr (page_part1 @ concat (map report_item (filter (\<lambda>r. endswith r (ascii ''.pdf''))
            (sort [ascii ''b.pdf'', ascii ''notes.txt'', ascii ''a.pdf'', ascii ''empty.pdf'']))) @
          page_part2 @ concat (map entry_html (rev [])) @ page_part3)"
  using create_group_page_listing [OF ex_base, of ex_fs _ "[]"]
  by (simp add: ex_fs_def good_name_def ascii_def)

theorem list_reports_sorted_pdfs_witness:
  "sorted [ascii ''a.pdf'', ascii ''b.pdf'', ascii ''empty.pdf''] \<and>
   set [ascii ''a.pdf'', ascii ''b.pdf'', ascii ''empty.pdf''] =
     {r \<in> set [ascii ''b.pdf'', ascii ''notes.txt'', ascii ''a.pdf'', ascii ''empty.pdf'']. endswith r (ascii ''.pdf'')}
   \<and> distinct [ascii ''a.pdf'', ascii ''b.pdf'', ascii ''empty.pdf'']"
proof -
  have "distinct [ascii ''b.pdf'', ascii ''notes.txt'', ascii ''a.pdf'', ascii ''empty.pdf'']"
    by (simp add: ascii_def)
  with list_reports_sorted_pdfs [OF ex_listdir ex_reports] show ?thesis by simp
qed

theorem list_reports_missing_witness: "list_reports ex_cfg ex_fs_bare = Inr []"
  by (rule list_reports_missing [OF ex_base, where es = "[]"]) (simp_all add: ex_fs_bare_def good_name_def ascii_def)

theorem server_history_bounded_witness:
  "hist_inv [] \<and>
   hist_inv (request_history (start ex_cfg ex_fs True [Conn True (utf8_encode req_post), Interrupt] (init_server [])))"
  using server_history_bounded [of "[]" ex_cfg ex_fs True "[Conn True (utf8_encode req_post), Interrupt]"] by simp

theorem server_history_fifo_witness:
  "request_history (accept_loop ex_cfg ex_fs (map (\<lambda>x. Conn True (fst x)) [(utf8_encode req_post, req_post)])
     (init_server [])) =
   last_n history_cap (request_history (init_server []) @
     map (\<lambda>x. \<lparr>request = snd x, response = resp_405\<rparr>) [(utf8_encode req_post, req_post)])"
  by (rule server_history_fifo) (simp_all add: init_server_def non_get_def ex_decode ex_parse_post ex_paths)

theorem start_listener_witness:
  "status (start ex_cfg ex_fs True [Interrupt] (init_server [])) = Stopped \<and>
   \<not> listening (start ex_cfg ex_fs True [Interrupt] (init_server [])) \<and>
   listener_closes (start ex_cfg ex_fs True [Interrupt] (init_server [])) = 1"
proof -
  have "status (start ex_cfg ex_fs True [Interrupt] (init_server [])) = Stopped"
    by (simp add: start_def create_server_socket_def init_server_def close_listener_def)
  with start_listener [of True "init_server []" ex_cfg ex_fs "[Interrupt]"] show ?thesis
    by (simp add: init_server_def)
qed

theorem main_bind_failure_witness:
  "main ex_cfg ex_fs False [Interrupt] = (init_server [])\<lparr>status := Exited 1\<rparr>"
  by (rule main_bind_failure [OF ex_reports])


lemma ex_hist_length: "length ex_hist = history_cap"
  by (simp add: ex_hist_def history_cap_def)

lemma ex_race_two:
  "race_step\<^sup>*\<^sup>* (ex_hist, map AtCheck [ex_entry, ex_entry]) (tl ex_hist @ [ex_entry, ex_entry], [Finished, Finished])"
  using race_two_threads [OF ex_hist_length] by simp

theorem race_history_bound_witness:
  "length (tl ex_hist @ [ex_entry, ex_entry]) < history_cap + length [ex_entry, ex_entry]"
  by (rule race_history_bound [OF ex_race_two]) (simp_all add: hist_inv_def ex_hist_length)

theorem race_history_suffix_witness:
  "\<exists>zs. suffix (tl ex_hist @ [ex_entry, ex_entry]) (ex_hist @ zs) \<and> mset zs \<subseteq># mset [ex_entry, ex_entry]"
  by (rule race_history_suffix [OF ex_race_two])

theorem race_reaches_bound_witness:
  "race_step\<^sup>*\<^sup>* (ex_hist, map AtCheck [ex_entry, ex_entry, ex_entry])
     (tl ex_hist @ [ex_entry, ex_entry, ex_entry], map (\<lambda>_. Finished) [ex_entry, ex_entry, ex_entry])
   \<and> length (tl ex_hist @ [ex_entry, ex_entry, ex_entry]) = history_cap + 2"
  using race_reaches_bound [OF ex_hist_length, of ex_entry "[ex_entry, ex_entry]"] ex_hist_length
  by (simp add: history_cap_def)

lemma ex_locked_call:
  "locked_step (h, [AtCheck ex_entry]) (add_to_request_history h (request ex_entry) (response ex_entry), [Finished])"
  using locked_step.call [of 0 "[AtCheck ex_entry]" ex_entry h] by simp

theorem locked_inv_witness:
  "hist_inv (add_to_request_history (replicate 50 ex_entry) (request ex_entry) (response ex_entry))"
  using locked_inv [OF r_into_rtranclp [of locked_step, OF ex_locked_call [of "replicate 50 ex_entry"]]]
  by (simp add: hist_inv_def history_cap_def)

theorem locked_full_stays_witness:
  "length (add_to_request_history (replicate 50 ex_entry) (request ex_entry) (response ex_entry)) = 50"
  using locked_full_stays [OF r_into_rtranclp [of locked_step, OF ex_locked_call [of "replicate 50 ex_entry"]]]
  by (simp add: history_cap_def)

theorem py_encode_decode_witness:
  "utf8_decode (utf8_encode [1092, 2048, 97]) = Some [1092, 2048, 97]"
  by (rule py_encode_decode) (simp add: py_encode_def valid_cp_def)

theorem unquote_quote_all_witness:
  "unquote (quote_all (ascii ''a b/'' @ [1092])) = ascii ''a b/'' @ [1092]"
  by (rule unquote_quote_all) (simp add: valid_cp_def)

theorem server_connections_closed_witness:
  "list_all (\<lambda>c. count_close (sent c) = 1)
     (handled (start ex_cfg ex_fs True [Conn True (utf8_encode req_post), Conn False [255], Interrupt]
       (init_server [])))"
  using server_connections_closed [of ex_cfg ex_fs True "[Conn True (utf8_encode req_post), Conn False [255], Interrupt]" "[]"]
  by (simp add: list_all_iff)

theorem accept_loop_favicon_witness:
  "request_history (accept_loop ex_cfg ex_fs [Conn True (utf8_encode req_favicon), Conn True (utf8_encode req_post)]
     (init_server [])) =
   request_history (accept_loop ex_cfg ex_fs
     (filter (\<lambda>x. \<not> favicon_arrival x) [Conn True (utf8_encode req_favicon), Conn True (utf8_encode req_post)])
     (init_server []))"
  by (rule accept_loop_favicon)

theorem read_entries_history_witness:
  "read_entries (concat (map entry_html [ex_entry])) = Some [(request ex_entry, response ex_entry)]"
  using read_entries_history [of "[ex_entry]"] by simp

theorem unquote_scan_equiv_witness:
  "unquote (ascii ''/a%20b'') =
     (if 37 \<notin> set (ascii ''/a%20b'') then ascii ''/a%20b''
      else concat (map (\<lambda>r. if fst r then utf8_decode_replace (unquote_scan (map of_nat (snd r))) else snd r)
                       (runs (ascii ''/a%20b''))))"
  by (rule unquote_scan_equiv)

theorem app_reports_vs_server_witness:
  "app_index_reports ex_fs (path_join (base_dir ex_cfg) (ascii ''static'')) =
     Inr [ascii ''b.pdf'', ascii ''a.pdf'', ascii ''empty.pdf'']
   \<and> list_reports ex_cfg ex_fs = Inr [ascii ''a.pdf'', ascii ''b.pdf'', ascii ''empty.pdf'']"
  using app_reports_vs_server [OF ex_listdir] by (simp add: endswith_def ascii_def)

theorem app_reports_missing_witness:
  "app_index_reports ex_fs_bare (path_join (base_dir ex_cfg) (ascii ''static'')) = Inl FileNotFoundError"
  by (rule app_reports_missing [OF ex_base, where es = "[]"]) (simp_all add: ex_fs_bare_def good_name_def ascii_def)

theorem pdf_content_length_witness: "nat_of_digits (ascii ''4'') = length ex_pdf"
  by (rule pdf_content_length) (simp add: pdf_header_def ex_pdf_def str_of_nat.simps ascii_def)

lemma ex_names_valid: "names_valid ex_fs"
  by (simp add: names_valid_def ex_fs_def valid_cp_def ascii_def)

theorem server_no_encode_error_witness:
  "list_all (\<lambda>c. logged c \<noteq> Some UnicodeEncodeError)
     (handled (start ex_cfg ex_fs True [Conn True (utf8_encode req_index), Conn True (utf8_encode req_a), Interrupt]
       (init_server [])))"
  using server_no_encode_error [OF ex_names_valid, of "[]" ex_cfg True
      "[Conn True (utf8_encode req_index), Conn True (utf8_encode req_a), Interrupt]"]
  by (simp add: hist_valid_def list_all_iff)

theorem handle_client_cut_char_witness:
  "handle_client ex_cfg ex_fs True (utf8_encode (replicate 1023 97 @ 1092 # ascii '' HTTP/1.1'')) [] =
     \<lparr>hist = [], sent = [Close], closed = True, logged = Some UnicodeDecodeError\<rparr>"
  by (rule handle_client_cut_char) (simp_all add: valid_cp_def)

theorem hist_valid_handle_client_witness:
  "hist_valid (hist (handle_client ex_cfg ex_fs True (utf8_encode req_index) []))"
  by (rule hist_valid_handle_client) (simp_all add: hist_valid_def ex_names_valid)

theorem page_valid_iff_witness:
  "list_all valid_cp ex_page \<longleftrightarrow>
     (\<forall>r \<in> set [ascii ''a.pdf'', ascii ''b.pdf'', ascii ''empty.pdf'']. list_all valid_cp r) \<and> hist_valid []"
  by (rule page_valid_iff [OF ex_group_page ex_reports])

lemma ex_bad_reports: "list_reports ex_cfg ex_fs_bad = Inr [ex_bad_name]"
proof -
  have "os_listdir ex_fs_bad (reports_path ex_cfg) = Inr [ex_bad_name]"
    by (simp add: os_listdir_def resolve_def reports_path_def path_join_def ex_fs_bad_def ex_cfg_def
        ex_bad_name_def ascii_def)
  then show ?thesis by (simp add: list_reports_listing endswith_def ex_bad_name_def ascii_def)
qed

lemma ex_bad_group_page: "create_group_page ex_cfg ex_fs_bad [] = Inr ex_bad_page"
  by (simp add: create_group_page_def ex_bad_reports ex_bad_page_def)

theorem index_encode_failure_witness:
  "handle_client ex_cfg ex_fs_bad True (utf8_encode req_index) [] =
     \<lparr>hist = add_to_request_history [] req_index (index_response ex_bad_page), sent = [Close], closed = True,
      logged = Some UnicodeEncodeError\<rparr>"
  by (rule index_encode_failure [OF ex_decode(4) ex_parse_index ex_bad_group_page])
     (simp add: ex_bad_page_def report_item_def ex_bad_name_def valid_cp_def)

theorem render_interleaved_witness:
  "\<exists>h' out. sys_step\<^sup>*\<^sup>* (start_render ex_hist [AtCheck ex_entry]) (h', [Finished], None, out) \<and>
     out = last ex_hist # rev (tl ex_hist)"
  by (rule render_interleaved) (simp add: ex_hist_def history_cap_def)

theorem render_snapshot_witness:
  "sys_step\<^sup>*\<^sup>* (start_render [ex_entry] [Finished]) ([ex_entry], [Finished], None, [ex_entry]) \<and>
   [ex_entry] = rev [ex_entry]"
proof -
  have "sys_step\<^sup>*\<^sup>* ([ex_entry], [Finished], Some (int 0), []) ([ex_entry], [Finished], Some (-1), [] @ rev (take (Suc 0) [ex_entry]))"
    by (rule render_reads) simp
  then have "sys_step\<^sup>*\<^sup>* (start_render [ex_entry] [Finished]) ([ex_entry], [Finished], None, [ex_entry])"
    using render_stop [of "[ex_entry]" "[Finished]" "[ex_entry]"]
    by (simp add: start_render_def rtranclp.rtrancl_into_rtrancl)
  moreover from this have "[ex_entry] = rev [ex_entry]" by (rule render_snapshot [rotated]) simp
  ultimately show ?thesis by blast
qed


theorem main_io_refines_witness:
  "fst (main_io Strict ex_cfg ex_fs True [Conn True (utf8_encode req_post), Interrupt]) =
   main ex_cfg ex_fs True [Conn True (utf8_encode req_post), Interrupt]"
  by (rule main_io_refines) (simp_all add: ex_cfg_def ex_fs_def enc_ok_def valid_cp_def ascii_def)

theorem main_io_strict_valid_witness:
  "hist_valid (request_history (fst (main_io Strict ex_cfg ex_fs_bad True
     [Conn True (utf8_encode req_index), Conn True (utf8_encode req_post), Interrupt])))"
  by (rule main_io_strict_valid)

theorem strict_index_bad_name_witness:
  "hs (handle_client_io Strict ex_cfg ex_fs_bad True (utf8_encode req_index) [] []) =
     \<lparr>hist = [], sent = [Close], closed = True, logged = Some UnicodeEncodeError\<rparr>"
  by (simp add: strict_index_bad_name [OF ex_decode(4) ex_parse_index ex_bad_reports, where r = ex_bad_name]
      ex_bad_name_def valid_cp_def)


lemma ex_decode_forged: "utf8_decode (take 1024 (utf8_encode req_forged)) = Some req_forged"
proof -
  have v: "list_all valid_cp req_forged" by (simp add: req_forged_def msg_added_def valid_cp_def ascii_def)
  have "length (utf8_encode req_forged) \<le> 1024"
    by (simp add: req_forged_def msg_added_def ascii_def utf8_encode_def utf8_encode_char_def str_of_nat.simps)
  then show ?thesis using utf8_roundtrip [OF v] by simp
qed

theorem handle_client_io_echo_witness:
  "prefix ([] @ [Text msg_received, Peer, Text [58], Text [10], Text req_forged, Text [10]])
     (out (handle_client_io Strict ex_cfg ex_fs True (utf8_encode req_forged) [] [])) \<and>
   msg_added @ str_of_nat 99 \<in> set (split_on 10 req_forged)"
proof
  show "prefix ([] @ [Text msg_received, Peer, Text [58], Text [10], Text req_forged, Text [10]])
     (out (handle_client_io Strict ex_cfg ex_fs True (utf8_encode req_forged) [] []))"
    by (rule handle_client_io_echo [OF ex_decode_forged])
  show "msg_added @ str_of_nat 99 \<in> set (split_on 10 req_forged)"
    by (simp add: req_forged_def msg_added_def ascii_def str_of_nat.simps)
qed

theorem record_io_size_witness:
  "record_io Strict req_post resp_405 \<lparr>hs = init_hstate ex_hist, out = []\<rparr> =
     Inr \<lparr>hs = record_hist req_post resp_405 (init_hstate ex_hist),
          out = [Text (msg_added @ str_of_nat 50), Text [10]]\<rparr>"
  using record_io_size [of "\<lparr>hs = init_hstate ex_hist, out = []\<rparr>" Strict req_post resp_405]
  by (simp add: hist_inv_def ex_hist_def init_hstate_def history_cap_def)

end
